theory Spec2Isabelle
  imports Complex_Main "HOL-Library.Log_Nat"
begin

section \<open>Python values used by generate.py\<close>

text \<open>
  The exceptions the modelled code can raise. An \<open>UnboundLocalError\<close> is the
  \<open>NameError\<close> Python raises for a local variable read before assignment.
\<close>

datatype error =
    NameError | UnboundLocalError | AttributeError | TypeError | ValueError
  | ZeroDivisionError | OverflowError | IndexError

text \<open>
  A Python \<open>float\<close>: a finite binary64 value (held as the rational it denotes; the two
  signed zeros are the one rational \<open>0\<close>, as Python's \<open>==\<close> has it), the two infinities
  and not-a-number.
\<close>

datatype pyfloat = Fin rat | PInf | NInf | NaN

text \<open>
  A \<open>datetime\<close> is an instant counted in microseconds, a \<open>timedelta\<close> a signed count of
  microseconds. The range limits of both types (years 1 to 9999) are left out.
\<close>

type_synonym datetime = int
type_synonym timedelta = int

text \<open>
  A generator is modelled by what it yields, in order, and by the exception that ends
  it, if one does.
\<close>

type_synonym 'a gen = "'a list \<times> error option"

section \<open>Binary64 arithmetic\<close>

text \<open>
  Python's float operations round the exact result to the nearest binary64 value, ties
  to the even significand. \<open>round_half_even\<close> is that rounding to an integer.
\<close>

definition round_half_even :: "rat \<Rightarrow> int" where
  "round_half_even x =
     (let f = \<lfloor>x\<rfloor>; r = x - of_int f
      in if r < 1 / 2 then f else if 1 / 2 < r then f + 1 else if even f then f else f + 1)"

text \<open>
  Every finite binary64 value is an integer multiple of \<open>2\<^sup>-\<^sup>1\<^sup>0\<^sup>7\<^sup>4\<close>, the smallest
  positive one: \<open>grid\<close> is the scale that makes them integers. A scaled value below
  \<open>2\<^sup>5\<^sup>3\<close> (the subnormal numbers and the first binade of normal ones) is rounded to
  an integer; from there on each binade doubles the spacing, and \<open>binade_shift\<close> is the
  number of doublings.
\<close>

definition grid :: rat where
  "grid = 2 ^ 1074"

definition binade_shift :: "rat \<Rightarrow> nat" where
  "binade_shift X = nat (bitlen \<lfloor>X\<rfloor> - 53)"

definition round_scaled :: "rat \<Rightarrow> int" where
  "round_scaled X = (let j = binade_shift X in 2 ^ j * round_half_even (X / 2 ^ j))"

text \<open>The rational nearest to \<open>x\<close> on the binary64 grid, before the overflow check.\<close>

definition round_value :: "rat \<Rightarrow> rat" where
  "round_value x = sgn x * of_int (round_scaled (\<bar>x\<bar> * grid)) / grid"

text \<open>The float that an exact result \<open>x\<close> is rounded to; beyond the range it is an infinity.\<close>

definition round_binary64 :: "rat \<Rightarrow> pyfloat" where
  "round_binary64 x =
     (let y = round_value x
      in if 2 ^ 1024 \<le> \<bar>y\<bar> then (if 0 < x then PInf else NInf) else Fin y)"

text \<open>\<open>x\<close> is the value of a finite float.\<close>

definition binary64 :: "rat \<Rightarrow> bool" where
  "binary64 x = (round_binary64 x = Fin x)"

text \<open>The float operations \<open>-a\<close>, \<open>a + b\<close>, \<open>a - b\<close> and \<open>a * b\<close>; none of them raises.\<close>

fun fneg :: "pyfloat \<Rightarrow> pyfloat" where
  "fneg (Fin x) = Fin (- x)"
| "fneg PInf = NInf"
| "fneg NInf = PInf"
| "fneg NaN = NaN"

fun fadd :: "pyfloat \<Rightarrow> pyfloat \<Rightarrow> pyfloat" where
  "fadd (Fin x) (Fin y) = round_binary64 (x + y)"
| "fadd NaN b = NaN"
| "fadd a NaN = NaN"
| "fadd PInf NInf = NaN"
| "fadd NInf PInf = NaN"
| "fadd PInf b = PInf"
| "fadd a PInf = PInf"
| "fadd NInf b = NInf"
| "fadd a NInf = NInf"

definition fsub :: "pyfloat \<Rightarrow> pyfloat \<Rightarrow> pyfloat" where
  "fsub a b = fadd a (fneg b)"

fun fmul :: "pyfloat \<Rightarrow> pyfloat \<Rightarrow> pyfloat" where
  "fmul (Fin x) (Fin y) = round_binary64 (x * y)"
| "fmul NaN b = NaN"
| "fmul a NaN = NaN"
| "fmul (Fin x) b = (if x = 0 then NaN else if 0 < x then b else fneg b)"
| "fmul a (Fin y) = (if y = 0 then NaN else if 0 < y then a else fneg a)"
| "fmul PInf PInf = PInf"
| "fmul NInf NInf = PInf"
| "fmul PInf NInf = NInf"
| "fmul NInf PInf = NInf"

text \<open>
  \<open>a / b\<close> on floats. Python tests the divisor first and raises \<open>ZeroDivisionError\<close> for
  a zero of either sign, whatever the dividend is.
\<close>

fun fdiv :: "pyfloat \<Rightarrow> pyfloat \<Rightarrow> error + pyfloat" where
  "fdiv a (Fin y) =
     (if y = 0 then Inl ZeroDivisionError
      else (case a of
              Fin x \<Rightarrow> Inr (round_binary64 (x / y))
            | PInf \<Rightarrow> Inr (if 0 < y then PInf else NInf)
            | NInf \<Rightarrow> Inr (if 0 < y then NInf else PInf)
            | NaN \<Rightarrow> Inr NaN))"
| "fdiv a NaN = Inr NaN"
| "fdiv (Fin x) b = Inr (Fin 0)"
| "fdiv a b = Inr NaN"

text \<open>\<open>a > k\<close> for a float \<open>a\<close> and an int \<open>k\<close>: Python compares the two exactly.\<close>

fun fgt_int :: "pyfloat \<Rightarrow> int \<Rightarrow> bool" where
  "fgt_int (Fin x) k = (of_int k < x)"
| "fgt_int PInf k = True"
| "fgt_int NInf k = False"
| "fgt_int NaN k = False"

text \<open>
  The conversion of an int operand of mixed arithmetic to a float: correctly rounded,
  \<open>OverflowError\<close> where the int is too large.
\<close>

definition float_of_int :: "int \<Rightarrow> error + pyfloat" where
  "float_of_int k =
     (case round_binary64 (of_int k) of
        Fin y \<Rightarrow> Inr (Fin y)
      | PInf \<Rightarrow> Inl OverflowError
      | NInf \<Rightarrow> Inl OverflowError
      | NaN \<Rightarrow> Inl OverflowError)"

text \<open>
  \<open>delta * fraction\<close> for a timedelta and a float: the product in microseconds rounded
  half to even; not-a-number raises \<open>ValueError\<close>, an infinity \<open>OverflowError\<close>.
\<close>

definition timedelta_mul :: "timedelta \<Rightarrow> pyfloat \<Rightarrow> error + timedelta" where
  "timedelta_mul delta fraction =
     (case fraction of
        Fin q \<Rightarrow> Inr (round_half_even (of_int delta * q))
      | PInf \<Rightarrow> Inl OverflowError
      | NInf \<Rightarrow> Inl OverflowError
      | NaN \<Rightarrow> Inl ValueError)"

text \<open>\<open>delta.total_seconds()\<close>: the microseconds divided by \<open>10\<^sup>6\<close>, as a float.\<close>

definition total_seconds :: "timedelta \<Rightarrow> pyfloat" where
  "total_seconds delta = round_binary64 (of_int delta / 1000000)"

section \<open>The activity document\<close>

text \<open>
  An \<open>xml.etree.ElementTree\<close> element: its tag, its \<open>.text\<close> (which may be \<open>None\<close>) and
  its children in document order.
\<close>

datatype element = Element (tag: string) (etext: "string option") (children: "element list")

text \<open>\<open>parent.find(name)\<close> with a plain tag name: the first direct child with that tag.\<close>

definition find_child :: "element \<Rightarrow> string \<Rightarrow> element option" where
  "find_child parent name = List.find (\<lambda>c. tag c = name) (children parent)"

text \<open>\<open>elem.iter()\<close>: the element and all its descendants, in document order.\<close>

fun iter :: "element \<Rightarrow> element list" where
  "iter (Element tg tx cs) = Element tg tx cs # concat (map iter cs)"

text \<open>
  \<open>document.findall('.//' + name)\<close>: every descendant of the document element with the
  given tag, in document order; the document element itself is not among them.
\<close>

definition findall_descendants :: "element \<Rightarrow> string \<Rightarrow> element list" where
  "findall_descendants document name =
     filter (\<lambda>e. tag e = name) (concat (map iter (children document)))"

section \<open>Trackpoints and their parser\<close>

record trackpoint =
  time :: datetime
  altitude_meters :: pyfloat
  distance_meters :: pyfloat
  latitude_degrees :: pyfloat
  longitude_degrees :: pyfloat

definition ISO :: string where
  "ISO = ''%Y-%m-%dT%H:%M:%SZ''"

text \<open>
  The built-in \<open>float(x)\<close> applied to an element's \<open>.text\<close>. The parameter \<open>pf\<close> is
  Python's conversion of a string to a float, \<open>None\<close> where it raises \<open>ValueError\<close>;
  \<open>float(None)\<close> raises \<open>TypeError\<close>.
\<close>

definition float_builtin :: "(string \<Rightarrow> pyfloat option) \<Rightarrow> string option \<Rightarrow> error + pyfloat" where
  "float_builtin pf tx =
     (case tx of
        None \<Rightarrow> Inl TypeError
      | Some s \<Rightarrow> (case pf s of None \<Rightarrow> Inl ValueError | Some v \<Rightarrow> Inr v))"

text \<open>
  \<open>date_of\<close>, lines 227 to 233. The parameter \<open>sp\<close> is \<open>datetime.strptime\<close>, \<open>None\<close> where
  it raises \<open>ValueError\<close>. In the \<open>else\<close> branch the source reads \<open>e.text\<close>; no name
  \<open>e\<close> is bound in the function, in the module or among the built-ins (the element
  found is bound to \<open>element\<close>), so the branch raises \<open>NameError\<close>.
\<close>

definition date_of :: "(string \<Rightarrow> string \<Rightarrow> datetime option) \<Rightarrow> element \<Rightarrow> string \<Rightarrow> error + datetime" where
  "date_of sp parent name =
     (case find_child parent name of
        None \<Rightarrow>
          (case sp ''2019-11-11T01:02:03Z'' ISO of
             None \<Rightarrow> Inl ValueError
           | Some d \<Rightarrow> Inr d)
      | Some element \<Rightarrow> Inl NameError)"

text \<open>\<open>float_of\<close>, lines 235 to 239.\<close>

definition float_of :: "(string \<Rightarrow> pyfloat option) \<Rightarrow> element \<Rightarrow> string \<Rightarrow> error + pyfloat" where
  "float_of pf parent name =
     (case find_child parent name of
        None \<Rightarrow> Inr NaN
      | Some element \<Rightarrow> float_builtin pf (etext element))"

text \<open>
  The expression \<open>float(p.find(name).text)\<close> of lines 221, 223 and 224, where \<open>p\<close> may
  be \<open>None\<close>: reading \<open>.find\<close> of \<open>None\<close>, or \<open>.text\<close> of the \<open>None\<close> that \<open>find\<close> returns,
  raises \<open>AttributeError\<close>.
\<close>

definition child_float :: "(string \<Rightarrow> pyfloat option) \<Rightarrow> element option \<Rightarrow> string \<Rightarrow> error + pyfloat" where
  "child_float pf p name =
     (case p of
        None \<Rightarrow> Inl AttributeError
      | Some pe \<Rightarrow>
          (case find_child pe name of
             None \<Rightarrow> Inl AttributeError
           | Some c \<Rightarrow> float_builtin pf (etext c)))"

text \<open>
  The body of the \<open>for\<close> loop of \<open>parse_trackpoints\<close>, lines 215 to 225, for one element:
  \<open>Inr None\<close> is \<open>continue\<close>, \<open>Inr (Some p)\<close> a yielded Trackpoint, \<open>Inl e\<close> a raised
  exception. The keyword arguments are evaluated in the order they are written.
\<close>

definition parse_element ::
  "(string \<Rightarrow> pyfloat option) \<Rightarrow> (string \<Rightarrow> string \<Rightarrow> datetime option) \<Rightarrow> element
     \<Rightarrow> error + trackpoint option" where
  "parse_element pf sp t =
     (let p = find_child t ''Position'';
          a = find_child t ''AltitudeMeters''
      in if a = None then Inr None
         else
           (case date_of sp t ''Time'' of Inl e \<Rightarrow> Inl e | Inr tm \<Rightarrow>
           (case child_float pf (Some t) ''AltitudeMeters'' of Inl e \<Rightarrow> Inl e | Inr alt \<Rightarrow>
           (case float_of pf t ''DistanceMeters'' of Inl e \<Rightarrow> Inl e | Inr dm \<Rightarrow>
           (case child_float pf p ''LatitudeDegrees'' of Inl e \<Rightarrow> Inl e | Inr lat \<Rightarrow>
           (case child_float pf p ''LongitudeDegrees'' of Inl e \<Rightarrow> Inl e | Inr lon \<Rightarrow>
              Inr (Some \<lparr>time = tm, altitude_meters = alt, distance_meters = dm,
                         latitude_degrees = lat, longitude_degrees = lon\<rparr>)))))))"

text \<open>The \<open>for\<close> loop over the elements found.\<close>

fun parse_elements ::
  "(string \<Rightarrow> pyfloat option) \<Rightarrow> (string \<Rightarrow> string \<Rightarrow> datetime option) \<Rightarrow> element list
     \<Rightarrow> trackpoint gen" where
  "parse_elements pf sp [] = ([], None)"
| "parse_elements pf sp (t # ts) =
     (case parse_element pf sp t of
        Inl e \<Rightarrow> ([], Some e)
      | Inr None \<Rightarrow> parse_elements pf sp ts
      | Inr (Some tp) \<Rightarrow>
          (case parse_elements pf sp ts of (ys, r) \<Rightarrow> (tp # ys, r)))"

definition parse_trackpoints ::
  "(string \<Rightarrow> pyfloat option) \<Rightarrow> (string \<Rightarrow> string \<Rightarrow> datetime option) \<Rightarrow> element
     \<Rightarrow> trackpoint gen" where
  "parse_trackpoints pf sp document =
     parse_elements pf sp (findall_descendants document ''Trackpoint'')"

section \<open>The caching geocoder\<close>

text \<open>
  A \<open>CachingGeocoder\<close>: its \<open>data\<close> dictionary (a stored value may be Python's \<open>None\<close>,
  here \<open>None\<close> of the option type) and, to count them, the argument of every call made
  to \<open>reverse_geocoder.search\<close>.
\<close>

record 'r caching_geocoder =
  data :: "string \<rightharpoonup> 'r option"
  calls :: "(pyfloat \<times> pyfloat) list list"

text \<open>\<open>d.get(key)\<close>: \<open>None\<close> for a missing key, the stored value otherwise.\<close>

definition dict_get :: "(string \<rightharpoonup> 'r option) \<Rightarrow> string \<Rightarrow> 'r option" where
  "dict_get d key = (case d key of None \<Rightarrow> None | Some v \<Rightarrow> v)"

text \<open>
  The key \<open>'%.6f %.6f' % (lat, lon)\<close>; the parameter \<open>fmt\<close> is the conversion \<open>%.6f\<close>.
\<close>

definition cache_key :: "(pyfloat \<Rightarrow> string) \<Rightarrow> pyfloat \<Rightarrow> pyfloat \<Rightarrow> string" where
  "cache_key fmt lat lon = fmt lat @ '' '' @ fmt lon"

text \<open>
  \<open>CachingGeocoder.search\<close>, lines 56 to 63. The parameter \<open>rg\<close> is
  \<open>reverse_geocoder.search\<close>. The result is the value returned and the object after
  the call.
\<close>

definition search ::
  "(pyfloat \<Rightarrow> string) \<Rightarrow> ((pyfloat \<times> pyfloat) list \<Rightarrow> 'r option) \<Rightarrow> 'r caching_geocoder
     \<Rightarrow> pyfloat \<Rightarrow> pyfloat \<Rightarrow> 'r option \<times> 'r caching_geocoder" where
  "search fmt rg self lat lon =
     (let key = cache_key fmt lat lon;
          result = dict_get (data self) key
      in if result \<noteq> None then (result, self)
         else
           (let result = rg [(lat, lon)]
            in (result, self\<lparr>data := (data self)(key \<mapsto> result),
                              calls := calls self @ [[(lat, lon)]]\<rparr>)))"

section \<open>Speed, mileposts and splits\<close>

text \<open>The literal \<open>0.000621371\<close> of line 17 denotes the float nearest to it.\<close>

definition MILES_PER_METER :: pyfloat where
  "MILES_PER_METER = round_binary64 (621371 / 1000000000)"

record split =
  split_start :: datetime
  split_end :: datetime
  split_duration :: timedelta
  split_meters :: pyfloat
  split_mph :: pyfloat

text \<open>
  The argument \<open>meters\<close> of \<open>mph\<close> is an int or a float. In \<open>x * f\<close> with a float \<open>f\<close>
  an int \<open>x\<close> is converted to a float first.
\<close>

datatype pynum = PyInt int | PyFloat pyfloat

definition num_mul :: "pynum \<Rightarrow> pyfloat \<Rightarrow> error + pyfloat" where
  "num_mul x f =
     (case x of
        PyInt k \<Rightarrow> (case float_of_int k of Inl e \<Rightarrow> Inl e | Inr y \<Rightarrow> Inr (fmul y f))
      | PyFloat y \<Rightarrow> Inr (fmul y f))"

text \<open>
  \<open>mph\<close>, lines 206 to 210: \<open>meters * MILES_PER_METER / duration.total_seconds() * 60 * 60\<close>
  is evaluated from the left, and of the exceptions that the expression raises only a
  \<open>ZeroDivisionError\<close> is caught.
\<close>

definition mph :: "pynum \<Rightarrow> timedelta \<Rightarrow> error + pyfloat" where
  "mph meters duration =
     (case (case num_mul meters MILES_PER_METER of
              Inl e \<Rightarrow> Inl e
            | Inr m \<Rightarrow>
                (case fdiv m (total_seconds duration) of
                   Inl e \<Rightarrow> Inl e
                 | Inr q \<Rightarrow> Inr (fmul (fmul q (Fin 60)) (Fin 60)))) of
        Inl e \<Rightarrow> (if e = ZeroDivisionError then Inr (Fin 0) else Inl e)
      | Inr v \<Rightarrow> Inr v)"

text \<open>\<open>interpolate\<close>, lines 277 and 278.\<close>

definition interpolate :: "pyfloat \<Rightarrow> pyfloat \<Rightarrow> pyfloat \<Rightarrow> pyfloat" where
  "interpolate a b fraction = fadd a (fmul (fsub b a) fraction)"

text \<open>
  The variable \<open>previous_time\<close> of \<open>compute_mileposts\<close> holds the int \<open>0\<close> of line 244
  until the first sample has been passed, and a datetime from then on.
\<close>

datatype pytime = IntTime int | DateTime datetime

text \<open>
  Lines 251 and 253: \<open>delta = d.time - previous_time\<close> and
  \<open>previous_time + delta * fraction\<close>. A datetime minus an int raises \<open>TypeError\<close>.
\<close>

definition interpolate_time :: "pytime \<Rightarrow> datetime \<Rightarrow> pyfloat \<Rightarrow> error + datetime" where
  "interpolate_time previous_time t fraction =
     (case previous_time of
        IntTime i \<Rightarrow> Inl TypeError
      | DateTime pt \<Rightarrow>
          (case timedelta_mul (t - pt) fraction of
             Inl e \<Rightarrow> Inl e
           | Inr d \<Rightarrow> Inr (pt + d)))"

text \<open>
  The expression \<open>next_mile / MILES_PER_METER\<close> of line 254, an int divided by a float.
\<close>

definition mile_distance :: "int \<Rightarrow> error + pyfloat" where
  "mile_distance k =
     (case float_of_int k of Inl e \<Rightarrow> Inl e | Inr nm \<Rightarrow> fdiv nm MILES_PER_METER)"

text \<open>
  One pass through the body of the \<open>while\<close> loop, lines 250 to 270, up to the Trackpoint
  it yields. \<open>previous_miles\<close> starts as the int \<open>0\<close> of line 245; the arithmetic of
  line 250 on it agrees with that on the float \<open>0.0\<close>, which the model holds instead.
  \<open>previous_point\<close> is \<open>None\<close> while the variable is unbound. The statements and the
  keyword arguments are evaluated in the order of the source.
\<close>

definition milepost_at ::
  "pytime \<Rightarrow> pyfloat \<Rightarrow> trackpoint option \<Rightarrow> trackpoint \<Rightarrow> pyfloat \<Rightarrow> int
     \<Rightarrow> error + trackpoint" where
  "milepost_at previous_time previous_miles previous_point point miles next_mile =
     (case float_of_int next_mile of Inl e \<Rightarrow> Inl e | Inr nm \<Rightarrow>
     (case fdiv (fsub nm previous_miles) (fsub miles previous_miles) of
        Inl e \<Rightarrow> Inl e | Inr fraction \<Rightarrow>
     (case interpolate_time previous_time (time point) fraction of Inl e \<Rightarrow> Inl e | Inr tm \<Rightarrow>
     (case mile_distance next_mile of Inl e \<Rightarrow> Inl e | Inr dm \<Rightarrow>
     (case previous_point of None \<Rightarrow> Inl UnboundLocalError | Some pp \<Rightarrow>
        Inr \<lparr>time = tm,
             altitude_meters =
               interpolate (altitude_meters pp) (altitude_meters point) fraction,
             distance_meters = dm,
             latitude_degrees =
               interpolate (latitude_degrees pp) (latitude_degrees point) fraction,
             longitude_degrees =
               interpolate (longitude_degrees pp) (longitude_degrees point) fraction\<rparr>)))))"

text \<open>
  The \<open>while\<close> loop of lines 249 to 272 for one sample: the Trackpoints it yields, and
  the exception that ends it or the value of \<open>next_mile\<close> it leaves.
\<close>

function mile_loop ::
  "pytime \<Rightarrow> pyfloat \<Rightarrow> trackpoint option \<Rightarrow> trackpoint \<Rightarrow> pyfloat \<Rightarrow> int
     \<Rightarrow> trackpoint list \<times> (error + int)" where
  "mile_loop previous_time previous_miles previous_point point miles next_mile =
     (if fgt_int miles next_mile then
        (case milepost_at previous_time previous_miles previous_point point miles next_mile of
           Inl e \<Rightarrow> ([], Inl e)
         | Inr tp \<Rightarrow>
             (case mile_loop previous_time previous_miles previous_point point miles
                     (next_mile + 1) of
                (ys, r) \<Rightarrow> (tp # ys, r)))
      else ([], Inr next_mile))"
  by pat_completeness auto

text \<open>The \<open>for\<close> loop of lines 246 to 275.\<close>

fun for_points ::
  "pytime \<Rightarrow> pyfloat \<Rightarrow> trackpoint option \<Rightarrow> int \<Rightarrow> trackpoint list \<Rightarrow> trackpoint gen" where
  "for_points previous_time previous_miles previous_point next_mile [] = ([], None)"
| "for_points previous_time previous_miles previous_point next_mile (point # rest) =
     (let miles = fmul (distance_meters point) MILES_PER_METER
      in case mile_loop previous_time previous_miles previous_point point miles next_mile of
           (ys, Inl e) \<Rightarrow> (ys, Some e)
         | (ys, Inr next_mile') \<Rightarrow>
             (case for_points (DateTime (time point)) miles (Some point) next_mile' rest of
                (zs, r) \<Rightarrow> (ys @ zs, r)))"

text \<open>\<open>compute_mileposts\<close>, lines 241 to 275; what \<open>print\<close> writes is left out.\<close>

definition compute_mileposts :: "trackpoint list \<Rightarrow> trackpoint gen" where
  "compute_mileposts datapoints = for_points (IntTime 0) (Fin 0) None 1 datapoints"



section \<open>Auxiliary notions and sample inputs\<close>

text \<open>A sample is kept by the parser when it has an altitude field.\<close>

definition kept :: "element \<Rightarrow> bool" where
  "kept t = (find_child t ''AltitudeMeters'' \<noteq> None)"

text \<open>A stand-in for Python's \<open>float\<close> on the two strings the sample documents use.\<close>

definition sample_pf :: "string \<Rightarrow> pyfloat option" where
  "sample_pf s = (if s = ''1.0'' then Some (Fin 1) else if s = ''2.0'' then Some (Fin 2) else None)"

text \<open>Sample elements: a complete one with altitude \<open>a\<close> and neither \<open>Time\<close> nor
  \<open>DistanceMeters\<close>, one without altitude, one without position.\<close>

definition sample_point :: "string \<Rightarrow> element" where
  "sample_point a =
     Element ''Trackpoint'' None
       [Element ''AltitudeMeters'' (Some a) [],
        Element ''Position'' None
          [Element ''LatitudeDegrees'' (Some ''1.0'') [],
           Element ''LongitudeDegrees'' (Some ''2.0'') []]]"

definition sample_no_altitude :: element where
  "sample_no_altitude = Element ''Trackpoint'' None [Element ''DistanceMeters'' (Some ''1.0'') []]"

definition sample_no_position :: element where
  "sample_no_position = Element ''Trackpoint'' None [Element ''AltitudeMeters'' (Some ''1.0'') []]"

text \<open>A complete sample that also has a \<open>Time\<close> and a \<open>DistanceMeters\<close> field.\<close>

definition sample_timed :: element where
  "sample_timed =
     Element ''Trackpoint'' None
       [Element ''Time'' (Some ''2019-05-04T12:00:00Z'') [],
        Element ''AltitudeMeters'' (Some ''1.0'') [],
        Element ''DistanceMeters'' (Some ''2.0'') [],
        Element ''Position'' None
          [Element ''LatitudeDegrees'' (Some ''1.0'') [],
           Element ''LongitudeDegrees'' (Some ''2.0'') []]]"

text \<open>
  A document as the converter writes it, with two complete samples in its track and,
  before the track, an element that is no Trackpoint but has an altitude and a
  position.
\<close>

definition sample_document :: element where
  "sample_document =
     Element ''TrainingCenterDatabase'' None
       [Element ''Activities'' None
          [Element ''Activity'' None
             [Element ''Id'' (Some ''2019-05-04T12:00:00Z'') [],
              Element ''Lap'' None
                [Element ''Waypoint'' None
                   [Element ''AltitudeMeters'' (Some ''1.0'') [],
                    Element ''Position'' None
                      [Element ''LatitudeDegrees'' (Some ''1.0'') [],
                       Element ''LongitudeDegrees'' (Some ''2.0'') []]],
                 Element ''Track'' None [sample_timed, sample_timed]]]]]"

text \<open>
  The formula of the specification for the speed,
  \<open>meters * MILES_PER_METER / duration_seconds * 3600\<close>, and \<open>0.0\<close> when
  \<open>duration_seconds\<close> is zero, on floats.
\<close>

definition mph_formula :: "pyfloat \<Rightarrow> timedelta \<Rightarrow> error + pyfloat" where
  "mph_formula meters duration =
     (if total_seconds duration = Fin 0 then Inr (Fin 0)
      else (case fdiv (fmul meters MILES_PER_METER) (total_seconds duration) of
              Inl e \<Rightarrow> Inl e
            | Inr q \<Rightarrow> Inr (fmul q (Fin 3600))))"

text \<open>A Trackpoint recorded at time \<open>t\<close> with cumulative distance \<open>d\<close>.\<close>

definition sample_at :: "datetime \<Rightarrow> rat \<Rightarrow> trackpoint" where
  "sample_at t d =
     \<lparr>time = t, altitude_meters = Fin 0, distance_meters = Fin d,
      latitude_degrees = Fin 0, longitude_degrees = Fin 0\<rparr>"

text \<open>The float written \<open>0.1\<close>, and the float nearest to one mile in meters,
  \<open>1609.3444978925634\<close>.\<close>

definition tenth :: rat where
  "tenth = 3602879701896397 / 2 ^ 55"

definition mile_in_meters :: rat where
  "mile_in_meters = 7077971954120807 / 2 ^ 42"

text \<open>
  The distance of a sample as a rational, whether it is a finite float, and its
  distance in miles as line 248 computes it.
\<close>

definition distance_value :: "trackpoint \<Rightarrow> rat" where
  "distance_value p = (case distance_meters p of Fin d \<Rightarrow> d | PInf \<Rightarrow> 0 | NInf \<Rightarrow> 0 | NaN \<Rightarrow> 0)"

definition finite_distance :: "trackpoint \<Rightarrow> bool" where
  "finite_distance p =
     (case distance_meters p of Fin d \<Rightarrow> binary64 d | PInf \<Rightarrow> False | NInf \<Rightarrow> False | NaN \<Rightarrow> False)"

definition miles_value :: "trackpoint \<Rightarrow> rat" where
  "miles_value p =
     (case fmul (distance_meters p) MILES_PER_METER of
        Fin m \<Rightarrow> m | PInf \<Rightarrow> 0 | NInf \<Rightarrow> 0 | NaN \<Rightarrow> 0)"

text \<open>The value of the float \<open>MILES_PER_METER\<close>.\<close>

definition mpm :: rat where
  "mpm = 5731135905912489 / 2 ^ 63"

text \<open>
  A track of three samples at 0 m, 2000 m and 3200 m, and one whose last sample lies at
  the float nearest to one mile.
\<close>

definition sample_track :: "trackpoint list" where
  "sample_track = [sample_at 0 0, sample_at 600000000 2000, sample_at 960000000 3200]"

definition whole_mile_track :: "trackpoint list" where
  "whole_mile_track = [sample_at 0 0, sample_at 600000000 mile_in_meters]"


definition distance_below :: "rat \<Rightarrow> trackpoint \<Rightarrow> bool" where
  "distance_below B p =
     (case distance_meters p of Fin d \<Rightarrow> \<bar>d\<bar> \<le> B | PInf \<Rightarrow> False | NInf \<Rightarrow> False | NaN \<Rightarrow> False)"

text \<open>
  The float written \<open>0.2\<close>; a recording from 0.2 m to 3500 m in twenty minutes, and the
  two mileposts between its ends.
\<close>

definition fifth :: rat where
  "fifth = 3602879701896397 / 2 ^ 54"



section \<open>Properties of the rounding\<close>

lemma round_half_even_cases:
  "round_half_even x = \<lfloor>x\<rfloor> \<or> round_half_even x = \<lfloor>x\<rfloor> + 1"
  by (simp add: round_half_even_def Let_def)

lemma round_half_even_upper: "of_int (round_half_even x) \<le> x + 1 / 2"
  unfolding round_half_even_def Let_def by (auto; linarith)

lemma round_half_even_lower: "x - 1 / 2 \<le> of_int (round_half_even x)"
  unfolding round_half_even_def Let_def by (auto; linarith)

lemma round_half_even_of_int [simp]: "round_half_even (of_int n) = n"
  by (simp add: round_half_even_def)

lemma round_half_even_mono:
  assumes "x \<le> y"
  shows "round_half_even x \<le> round_half_even y"
proof (cases "\<lfloor>x\<rfloor> = \<lfloor>y\<rfloor>")
  case True
  with assms show ?thesis
    unfolding round_half_even_def Let_def by (auto; linarith)
next
  case False
  with assms have "\<lfloor>x\<rfloor> + 1 \<le> \<lfloor>y\<rfloor>"
    using floor_mono [of x y] by linarith
  moreover have "round_half_even x \<le> \<lfloor>x\<rfloor> + 1"
    using round_half_even_cases [of x] by auto
  moreover have "\<lfloor>y\<rfloor> \<le> round_half_even y"
    using round_half_even_cases [of y] by auto
  ultimately show ?thesis by linarith
qed

lemma binade_shift_zero: "binade_shift X = 0 \<Longrightarrow> X < 2 ^ 53"
proof -
  assume "binade_shift X = 0"
  then have "bitlen \<lfloor>X\<rfloor> \<le> 53" by (simp add: binade_shift_def)
  then have "\<lfloor>X\<rfloor> < 2 ^ 53" by (simp add: bitlen_le_iff_power)
  then show ?thesis by (simp add: floor_less_iff)
qed

lemma binade_shift_pos:
  assumes "0 < binade_shift X"
  shows "2 ^ (52 + binade_shift X) \<le> X" "X < 2 ^ (53 + binade_shift X)"
proof -
  let ?j = "binade_shift X"
  have b: "bitlen \<lfloor>X\<rfloor> = 53 + int ?j"
    using assms by (simp add: binade_shift_def)
  then have pos: "0 < \<lfloor>X\<rfloor>" using bitlen_eq_zero_iff [of "\<lfloor>X\<rfloor>"] by linarith
  have "nat (bitlen \<lfloor>X\<rfloor> - 1) = 52 + ?j" "nat (bitlen \<lfloor>X\<rfloor>) = 53 + ?j"
    using b by (simp_all add: nat_add_distrib)
  with bitlen_bounds [OF pos]
  have lo: "2 ^ (52 + ?j) \<le> \<lfloor>X\<rfloor>" and hi: "\<lfloor>X\<rfloor> < 2 ^ (53 + ?j)" by simp_all
  from lo show "2 ^ (52 + ?j) \<le> X" by (simp add: le_floor_iff)
  from hi show "X < 2 ^ (53 + ?j)" by (simp add: floor_less_iff)
qed

lemma binade_shift_eqI:
  assumes "2 ^ (52 + j) \<le> X" "X < 2 ^ (53 + j)"
  shows "binade_shift X = j"
proof -
  have lo: "2 ^ (52 + j) \<le> \<lfloor>X\<rfloor>" using assms(1) by (simp add: le_floor_iff)
  have hi: "\<lfloor>X\<rfloor> < 2 ^ (53 + j)" using assms(2) by (simp add: floor_less_iff)
  have "bitlen \<lfloor>X\<rfloor> \<le> int (53 + j)"
    unfolding bitlen_le_iff_power nat_int using hi by simp
  moreover have "nat (int (53 + j)) - 1 = 52 + j" by simp
  then have "int (53 + j) \<le> bitlen \<lfloor>X\<rfloor>"
    unfolding bitlen_ge_iff_power using lo by simp
  ultimately show ?thesis by (simp add: binade_shift_def)
qed

lemma binade_shift_small: "X < 2 ^ 53 \<Longrightarrow> binade_shift X = 0"
proof -
  assume "X < 2 ^ 53"
  then have "\<lfloor>X\<rfloor> < 2 ^ 53" by (simp add: floor_less_iff)
  then have "bitlen \<lfloor>X\<rfloor> \<le> 53" by (simp add: bitlen_le_iff_power)
  then show ?thesis by (simp add: binade_shift_def)
qed

lemma binade_shift_mono:
  assumes "X \<le> Y"
  shows "binade_shift X \<le> binade_shift Y"
proof -
  have "nat \<lfloor>X\<rfloor> \<le> nat \<lfloor>Y\<rfloor>" using assms by (simp add: floor_mono nat_mono)
  then have "bitlen \<lfloor>X\<rfloor> \<le> bitlen \<lfloor>Y\<rfloor>"
    unfolding bitlen_def using floorlog_mono [of "nat \<lfloor>X\<rfloor>" "nat \<lfloor>Y\<rfloor>" 2] by simp
  then show ?thesis by (simp add: binade_shift_def nat_mono)
qed

lemma scaled_mantissa_less: "X / 2 ^ binade_shift X < 2 ^ 53"
proof (cases "binade_shift X = 0")
  case True
  then show ?thesis using binade_shift_zero [of X] by simp
next
  case False
  then have "X < 2 ^ (53 + binade_shift X)" using binade_shift_pos(2) [of X] by simp
  then show ?thesis by (simp add: power_add divide_less_eq)
qed

lemma scaled_mantissa_ge:
  "0 < binade_shift X \<Longrightarrow> 2 ^ 52 \<le> X / 2 ^ binade_shift X"
  using binade_shift_pos(1) [of X] by (simp add: power_add le_divide_eq)

lemma mantissa_le: "round_half_even (X / 2 ^ binade_shift X) \<le> 2 ^ 53"
proof -
  have "round_half_even (X / 2 ^ binade_shift X) \<le> round_half_even (of_int (2 ^ 53))"
    using scaled_mantissa_less [of X] by (intro round_half_even_mono) simp
  then show ?thesis by (simp only: round_half_even_of_int)
qed

lemma mantissa_ge:
  assumes "0 < binade_shift X"
  shows "2 ^ 52 \<le> round_half_even (X / 2 ^ binade_shift X)"
proof -
  have "round_half_even (of_int (2 ^ 52)) \<le> round_half_even (X / 2 ^ binade_shift X)"
    using scaled_mantissa_ge [OF assms] by (intro round_half_even_mono) simp
  then show ?thesis by (simp only: round_half_even_of_int)
qed

lemma mantissa_nonneg:
  assumes "0 \<le> X"
  shows "0 \<le> round_half_even (X / 2 ^ binade_shift X)"
proof -
  have "round_half_even (of_int 0) \<le> round_half_even (X / 2 ^ binade_shift X)"
    using assms by (intro round_half_even_mono) simp
  then show ?thesis by (simp only: round_half_even_of_int)
qed

lemma round_scaled_nonneg: "0 \<le> X \<Longrightarrow> 0 \<le> round_scaled X"
  by (simp add: round_scaled_def Let_def mantissa_nonneg)

lemma round_scaled_mono:
  assumes "X \<le> Y"
  shows "round_scaled X \<le> round_scaled Y"
proof (cases "binade_shift X = binade_shift Y")
  case True
  have "X / 2 ^ binade_shift Y \<le> Y / 2 ^ binade_shift Y"
    using assms by (simp add: divide_right_mono)
  then show ?thesis
    using True by (simp add: round_scaled_def Let_def round_half_even_mono)
next
  case False
  let ?i = "binade_shift X" and ?j = "binade_shift Y"
  from False have lt: "?i < ?j" using binade_shift_mono [OF assms] by simp
  have "round_scaled X \<le> 2 ^ ?i * 2 ^ 53"
    unfolding round_scaled_def Let_def using mantissa_le [of X]
    by (intro mult_left_mono) simp_all
  also have "\<dots> = (2::int) ^ (?i + 1) * 2 ^ 52" by (simp add: power_add)
  also have "\<dots> \<le> 2 ^ ?j * 2 ^ 52"
    using lt by (intro mult_right_mono power_increasing) simp_all
  also have "\<dots> \<le> round_scaled Y"
    unfolding round_scaled_def Let_def using mantissa_ge [of Y] lt
    by (intro mult_left_mono) simp_all
  finally show ?thesis .
qed

lemma round_scaled_exact:
  assumes "0 \<le> n" "n \<le> 2 ^ 53"
  shows "round_scaled (of_int (n * 2 ^ i)) = n * 2 ^ i"
proof -
  define N where "N = n * 2 ^ i"
  define j where "j = binade_shift (of_int N)"
  have le: "N \<le> 2 ^ 53 * 2 ^ i"
    unfolding N_def using assms by (intro mult_right_mono) simp_all
  have dvd: "2 ^ j dvd N"
  proof (cases "j \<le> i")
    case True
    then show ?thesis by (simp add: N_def le_imp_power_dvd)
  next
    case False
    then have jpos: "0 < binade_shift (of_int N)" by (simp add: j_def)
    have "2 ^ (52 + j) \<le> (of_int N :: rat)"
      using binade_shift_pos(1) [OF jpos] by (simp add: j_def)
    then have lo: "(2::int) ^ (52 + j) \<le> N"
      by (metis of_int_le_iff of_int_numeral of_int_power)
    with le have "(2::int) ^ (52 + j) \<le> 2 ^ (53 + i)" by (simp add: power_add)
    then have "52 + j \<le> 53 + i" by simp
    with False have ji: "j = i + 1" by simp
    have "(2::int) ^ (53 + i) \<le> N" using lo ji by simp
    with le have "N = 2 ^ (53 + i)" by (simp add: power_add)
    then have "N = 2 ^ j * 2 ^ 52" using ji by (simp add: power_add)
    then show ?thesis by (metis dvd_triv_left)
  qed
  then obtain m where m: "N = 2 ^ j * m" by (auto simp: dvd_def)
  have "(of_int N :: rat) / 2 ^ j = of_int m"
    unfolding m by simp
  then have "round_half_even (of_int N / 2 ^ j) = m" by (simp only: round_half_even_of_int)
  moreover have "round_scaled (of_int N) = 2 ^ j * round_half_even (of_int N / 2 ^ j)"
    by (simp add: round_scaled_def Let_def j_def)
  ultimately have "round_scaled (of_int N) = 2 ^ j * m" by (simp only:)
  then have "round_scaled (of_int N) = N" by (simp only: m)
  then show ?thesis by (simp only: N_def)
qed

lemma round_scaled_idem:
  assumes "0 \<le> X"
  shows "round_scaled (of_int (round_scaled X)) = round_scaled X"
proof -
  have "round_scaled X = round_half_even (X / 2 ^ binade_shift X) * 2 ^ binade_shift X"
    by (simp add: round_scaled_def Let_def)
  moreover have "round_scaled (of_int (round_half_even (X / 2 ^ binade_shift X) * 2 ^ binade_shift X))
      = round_half_even (X / 2 ^ binade_shift X) * 2 ^ binade_shift X"
    using mantissa_nonneg [OF assms] mantissa_le [of X] by (rule round_scaled_exact)
  ultimately show ?thesis by simp
qed


lemma grid_pos [simp]: "0 < grid"
  by (simp add: grid_def)

lemma grid_nonneg [simp]: "0 \<le> grid"
  by (simp add: grid_def)

lemma grid_nonzero [simp]: "grid \<noteq> 0"
  by (simp add: grid_def)

lemma grid_split: "i \<le> 1074 \<Longrightarrow> grid = 2 ^ (1074 - i) * 2 ^ i"
  unfolding grid_def by (simp only: power_add [symmetric]) simp

lemma round_scaled_zero [simp]: "round_scaled 0 = 0"
  using round_scaled_exact [of 0 0] by simp

lemma round_value_zero [simp]: "round_value 0 = 0"
  by (simp add: round_value_def)

lemma round_value_minus: "round_value (- x) = - round_value x"
  by (simp add: round_value_def sgn_minus)

lemma round_value_pos:
  "0 \<le> x \<Longrightarrow> round_value x = of_int (round_scaled (x * grid)) / grid"
  by (cases "x = 0") (simp_all add: round_value_def)

lemma round_value_nonneg: "0 \<le> x \<Longrightarrow> 0 \<le> round_value x"
  by (simp add: round_value_pos round_scaled_nonneg mult_nonneg_nonneg)

lemma round_value_nonpos: "x \<le> 0 \<Longrightarrow> round_value x \<le> 0"
  using round_value_nonneg [of "- x"] by (simp add: round_value_minus)

lemma round_value_mono_nonneg:
  assumes "0 \<le> x" "x \<le> y"
  shows "round_value x \<le> round_value y"
proof -
  have "x * grid \<le> y * grid" using assms by (intro mult_right_mono) simp_all
  then have "round_scaled (x * grid) \<le> round_scaled (y * grid)"
    by (rule round_scaled_mono)
  then have "(of_int (round_scaled (x * grid)) :: rat) / grid \<le> of_int (round_scaled (y * grid)) / grid"
    by (intro divide_right_mono) simp_all
  then show ?thesis
    using assms by (simp add: round_value_pos)
qed

lemma round_value_mono:
  assumes "x \<le> y"
  shows "round_value x \<le> round_value y"
proof -
  consider "0 \<le> x" | "x < 0" "0 \<le> y" | "y < 0" by linarith
  then show ?thesis
  proof cases
    case 1
    with assms show ?thesis by (simp add: round_value_mono_nonneg)
  next
    case 2
    then show ?thesis
      using round_value_nonpos [of x] round_value_nonneg [of y] by linarith
  next
    case 3
    with assms have "round_value (- y) \<le> round_value (- x)"
      by (intro round_value_mono_nonneg) simp_all
    then show ?thesis by (simp add: round_value_minus)
  qed
qed

lemma round_value_idem: "round_value (round_value x) = round_value x"
proof -
  have pos: "round_value (round_value y) = round_value y" if "0 \<le> y" for y
  proof -
    define N where "N = round_scaled (y * grid)"
    have "0 \<le> y * grid" using that by (intro mult_nonneg_nonneg) simp_all
    then have idem: "round_scaled (of_int N) = N" unfolding N_def by (rule round_scaled_idem)
    have ry: "round_value y = of_int N / grid"
      unfolding N_def using that by (rule round_value_pos)
    have "0 \<le> of_int N / grid" using round_value_nonneg [OF that] by (simp only: ry)
    then have "round_value (of_int N / grid) = of_int (round_scaled (of_int N / grid * grid)) / grid"
      by (rule round_value_pos)
    also have "of_int N / grid * grid = (of_int N :: rat)" by simp
    finally show ?thesis by (simp only: ry idem)
  qed
  show ?thesis
  proof (cases "0 \<le> x")
    case True
    then show ?thesis by (rule pos)
  next
    case False
    then have "round_value (round_value (- x)) = round_value (- x)" by (intro pos) simp
    then show ?thesis by (simp add: round_value_minus)
  qed
qed

lemma round_value_exact:
  assumes "0 \<le> n" "n \<le> 2 ^ 53"
  shows "round_value (of_int (n * 2 ^ i) / grid) = of_int (n * 2 ^ i) / grid"
proof -
  have "0 \<le> (of_int (n * 2 ^ i) :: rat)" using assms by simp
  then have "0 \<le> (of_int (n * 2 ^ i) / grid :: rat)" by (intro divide_nonneg_pos) simp_all
  then have "round_value (of_int (n * 2 ^ i) / grid)
      = of_int (round_scaled (of_int (n * 2 ^ i) / grid * grid)) / grid"
    by (rule round_value_pos)
  also have "of_int (n * 2 ^ i) / grid * grid = (of_int (n * 2 ^ i) :: rat)" by simp
  finally show ?thesis by (simp only: round_scaled_exact [OF assms])
qed

lemma round_value_power2_up: "round_value (2 ^ i) = 2 ^ i"
proof -
  have "(of_int (1 * 2 ^ (1074 + i)) / grid :: rat) = 2 ^ i"
    unfolding grid_def by (simp only: power_add of_int_mult of_int_power of_int_numeral of_int_1) simp
  with round_value_exact [of 1 "1074 + i"] show ?thesis by simp
qed

lemma round_value_power2_down:
  assumes "i \<le> 1074"
  shows "round_value (1 / 2 ^ i) = 1 / 2 ^ i"
proof -
  have "(of_int (1 * 2 ^ (1074 - i)) / grid :: rat) = 1 / 2 ^ i"
    by (simp add: grid_split [OF assms])
  with round_value_exact [of 1 "1074 - i"] show ?thesis by simp
qed

lemma round_value_abs_le:
  assumes "\<bar>x\<bar> \<le> 2 ^ i"
  shows "\<bar>round_value x\<bar> \<le> 2 ^ i"
proof -
  have "round_value x \<le> round_value (2 ^ i)" using assms by (intro round_value_mono) simp
  moreover have "round_value (- (2 ^ i)) \<le> round_value x"
    using assms by (intro round_value_mono) simp
  ultimately show ?thesis by (simp add: round_value_power2_up round_value_minus abs_le_iff)
qed

lemma round_value_nonzero:
  assumes "1 / grid \<le> \<bar>x\<bar>"
  shows "round_value x \<noteq> 0"
proof -
  have g: "round_value (1 / grid) = 1 / grid"
    unfolding grid_def by (rule round_value_power2_down) simp
  have pos: "0 < round_value y" if "1 / grid \<le> y" for y
  proof -
    have "0 < 1 / grid" by simp
    also have "1 / grid \<le> round_value y" using round_value_mono [OF that] by (simp only: g)
    finally show ?thesis .
  qed
  show ?thesis
  proof (cases "0 \<le> x")
    case True
    with assms have "0 < round_value x" by (intro pos) simp
    then show ?thesis by simp
  next
    case False
    with assms have "0 < round_value (- x)" by (intro pos) simp
    then show ?thesis by (simp add: round_value_minus)
  qed
qed


lemma round_scaled_error:
  assumes "0 \<le> X"
  shows "\<bar>of_int (round_scaled X) - X\<bar> \<le> X / 2 ^ 53 + 1 / 2"
proof -
  define j where "j = binade_shift X"
  define n where "n = round_half_even (X / 2 ^ j)"
  have rs: "round_scaled X = 2 ^ j * n" by (simp add: round_scaled_def Let_def j_def n_def)
  have "\<bar>of_int n - X / 2 ^ j\<bar> \<le> 1 / 2"
    using round_half_even_upper [of "X / 2 ^ j"] round_half_even_lower [of "X / 2 ^ j"]
    unfolding n_def by linarith
  then have "\<bar>of_int n - X / 2 ^ j\<bar> * 2 ^ j \<le> 1 / 2 * 2 ^ j"
    by (intro mult_right_mono) simp_all
  moreover have "\<bar>of_int n - X / 2 ^ j\<bar> * 2 ^ j = \<bar>of_int (2 ^ j * n) - X\<bar>"
  proof -
    have "\<bar>of_int n - X / 2 ^ j\<bar> * 2 ^ j = \<bar>(of_int n - X / 2 ^ j) * 2 ^ j\<bar>"
      by (simp add: abs_mult)
    also have "(of_int n - X / 2 ^ j) * 2 ^ j = of_int (2 ^ j * n) - X"
      by (simp add: algebra_simps)
    finally show ?thesis .
  qed
  ultimately have err: "\<bar>of_int (round_scaled X) - X\<bar> \<le> 2 ^ j / 2" by (simp add: rs)
  show ?thesis
  proof (cases "j = 0")
    case True
    with err assms show ?thesis by simp
  next
    case False
    then have "2 ^ (52 + j) \<le> X" using binade_shift_pos(1) [of X] by (simp add: j_def)
    then have "(2::rat) ^ j / 2 \<le> X / 2 ^ 53"
      by (simp add: power_add field_simps)
    with err show ?thesis by linarith
  qed
qed

lemma round_value_error: "\<bar>round_value x - x\<bar> \<le> \<bar>x\<bar> / 2 ^ 53 + 1 / (2 * grid)"
proof -
  have pos: "\<bar>round_value y - y\<bar> \<le> y / 2 ^ 53 + 1 / (2 * grid)" if "0 \<le> y" for y
  proof -
    define N where "N = round_scaled (y * grid)"
    have "0 \<le> y * grid" using that by (intro mult_nonneg_nonneg) simp_all
    then have "\<bar>of_int N - y * grid\<bar> \<le> y * grid / 2 ^ 53 + 1 / 2"
      unfolding N_def by (rule round_scaled_error)
    then have "\<bar>of_int N - y * grid\<bar> / grid \<le> (y * grid / 2 ^ 53 + 1 / 2) / grid"
      by (intro divide_right_mono) simp_all
    moreover have "\<bar>of_int N - y * grid\<bar> / grid = \<bar>of_int N / grid - y\<bar>"
    proof -
      have "\<bar>of_int N - y * grid\<bar> / grid = \<bar>(of_int N - y * grid) / grid\<bar>" by simp
      also have "(of_int N - y * grid) / grid = of_int N / grid - y" by (simp add: diff_divide_distrib)
      finally show ?thesis .
    qed
    moreover have "(y * grid / 2 ^ 53 + 1 / 2) / grid = y / 2 ^ 53 + 1 / (2 * grid)"
      by (simp add: add_divide_distrib)
    moreover have "round_value y = of_int N / grid"
      unfolding N_def using that by (rule round_value_pos)
    ultimately show ?thesis by (simp only:)
  qed
  show ?thesis
  proof (cases "0 \<le> x")
    case True
    then show ?thesis using pos [of x] by simp
  next
    case False
    then have "\<bar>round_value (- x) - (- x)\<bar> \<le> (- x) / 2 ^ 53 + 1 / (2 * grid)"
      by (intro pos) simp
    moreover have "\<bar>round_value (- x) - (- x)\<bar> = \<bar>round_value x - x\<bar>"
      unfolding round_value_minus by (simp add: abs_minus_commute)
    ultimately show ?thesis using False by simp
  qed
qed

lemma power_int_grid: "- 1074 \<le> a \<Longrightarrow> (2::rat) powi a * grid = 2 ^ nat (a + 1074)"
proof -
  assume a: "- 1074 \<le> a"
  have "(2::rat) powi a * grid = 2 powi a * 2 powi 1074"
    unfolding grid_def by (simp only: power_int_numeral)
  also have "\<dots> = 2 powi (a + 1074)" by (simp add: power_int_add)
  also have "\<dots> = 2 ^ nat (a + 1074)" using a by (simp add: power_int_nonneg_exp)
  finally show ?thesis .
qed

lemma round_value_normal:
  assumes lo: "2 powi a \<le> \<bar>x\<bar>" and hi: "\<bar>x\<bar> < 2 powi (a + 1)" and a: "- 1022 \<le> a"
  shows "round_value x =
           sgn x * (of_int (round_half_even (\<bar>x\<bar> / 2 powi (a - 52))) * 2 powi (a - 52))"
proof -
  define j where "j = nat (a + 1022)"
  define X where "X = \<bar>x\<bar> * grid"
  have "2 powi a * grid \<le> X" unfolding X_def using lo by (intro mult_right_mono) simp_all
  moreover have "nat (a + 1074) = 52 + j" using a by (simp add: j_def nat_add_distrib)
  ultimately have l: "2 ^ (52 + j) \<le> X" using a by (simp add: power_int_grid)
  have "X < 2 powi (a + 1) * grid" unfolding X_def using hi by (intro mult_strict_right_mono) simp_all
  moreover have "nat (a + 1 + 1074) = 53 + j" using a by (simp add: j_def nat_add_distrib)
  ultimately have h: "X < 2 ^ (53 + j)" using a by (simp add: power_int_grid)
  have j: "binade_shift X = j" using l h by (rule binade_shift_eqI)
  have q: "(2::rat) powi (a - 52) * grid = 2 ^ j"
    using a by (simp add: power_int_grid j_def)
  then have q': "(2::rat) powi (a - 52) = 2 ^ j / grid" by (simp add: field_simps)
  have "X / 2 ^ j = \<bar>x\<bar> / 2 powi (a - 52)" by (simp add: X_def q')
  then have "round_scaled X = 2 ^ j * round_half_even (\<bar>x\<bar> / 2 powi (a - 52))"
    by (simp add: round_scaled_def Let_def j)
  then show ?thesis
    unfolding round_value_def X_def [symmetric] by (simp add: q')
qed

lemma round_binary64_Fin_iff:
  "round_binary64 x = Fin y \<longleftrightarrow> y = round_value x \<and> \<bar>round_value x\<bar> < 2 ^ 1024"
  by (auto simp: round_binary64_def Let_def)

lemma round_binary64_zero [simp]: "round_binary64 0 = Fin 0"
  by (simp add: round_binary64_def)

lemma round_binary64_in_range:
  assumes "\<bar>x\<bar> \<le> 2 ^ 1023"
  shows "round_binary64 x = Fin (round_value x)"
proof -
  have "\<bar>round_value x\<bar> \<le> 2 ^ 1023" using assms by (rule round_value_abs_le)
  also have "(2::rat) ^ 1023 < 2 ^ 1024" by (intro power_strict_increasing) simp_all
  finally show ?thesis by (simp only: round_binary64_Fin_iff)
qed

lemma binary64_iff: "binary64 x \<longleftrightarrow> round_value x = x \<and> \<bar>x\<bar> < 2 ^ 1024"
  unfolding binary64_def round_binary64_Fin_iff by auto

lemma round_binary64_binary64: "round_binary64 x = Fin y \<Longrightarrow> binary64 y"
  unfolding binary64_iff round_binary64_Fin_iff by (auto simp: round_value_idem)

lemma binary64_zero [simp]: "binary64 0"
  by (simp add: binary64_def)

lemma float_of_int_bound:
  assumes "float_of_int k = Inr v"
  shows "k < 2 ^ 1024"
proof (rule ccontr)
  assume "\<not> k < 2 ^ 1024"
  then have "(2::int) ^ 1024 \<le> k" by simp
  then have "(of_int (2 ^ 1024) :: rat) \<le> of_int k" by (simp only: of_int_le_iff)
  then have "(2::rat) ^ 1024 \<le> of_int k" by simp
  then have "round_value (2 ^ 1024) \<le> round_value (of_int k)" by (rule round_value_mono)
  then have "2 ^ 1024 \<le> \<bar>round_value (of_int k)\<bar>"
    by (simp only: round_value_power2_up)
  then have "\<forall>y. round_binary64 (of_int k) \<noteq> Fin y"
    by (simp add: round_binary64_Fin_iff)
  with assms show False
    by (auto simp: float_of_int_def split: pyfloat.splits)
qed

lemma milepost_at_bound:
  "milepost_at previous_time previous_miles previous_point point miles k = Inr tp \<Longrightarrow> k < 2 ^ 1024"
  by (auto simp: milepost_at_def split: sum.splits dest: float_of_int_bound)

text \<open>
  The \<open>while\<close> loop ends for every float \<open>miles\<close>, infinity included: \<open>next_mile\<close>
  grows by one in each pass, and the conversion of line 250 raises on an int beyond
  the float range.
\<close>

termination mile_loop
proof (relation "measure (\<lambda>(pt, pm, pp, point, miles, k). nat (2 ^ 1024 - k))")
  show "wf (measure (\<lambda>(pt, pm, pp, point, miles, k). nat (2 ^ 1024 - k)))" by simp
next
  fix previous_time previous_miles previous_point point miles next_mile tp
  assume "milepost_at previous_time previous_miles previous_point point miles next_mile = Inr tp"
  then have "next_mile < 2 ^ 1024" by (rule milepost_at_bound)
  then show "((previous_time, previous_miles, previous_point, point, miles, next_mile + 1),
              previous_time, previous_miles, previous_point, point, miles, next_mile)
             \<in> measure (\<lambda>(pt, pm, pp, point, miles, k). nat (2 ^ 1024 - k))"
    by simp
qed

lemma floor_rat_numeral_divide [simp]:
  "\<lfloor>numeral a / numeral b :: rat\<rfloor> = numeral a div numeral b"
  by (metis floor_divide_of_int_eq of_int_numeral)

lemma floor_rat_minus_numeral_divide [simp]:
  "\<lfloor>- (numeral a / numeral b) :: rat\<rfloor> = - numeral a div numeral b"
  by (metis divide_minus_left floor_divide_of_int_eq of_int_neg_numeral of_int_numeral)

lemma round_binary64_normal:
  assumes "2 powi a \<le> \<bar>x\<bar>" "\<bar>x\<bar> < 2 powi (a + 1)" "- 1022 \<le> a" "a \<le> 1022"
  shows "round_binary64 x =
           Fin (sgn x * (of_int (round_half_even (\<bar>x\<bar> / 2 powi (a - 52))) * 2 powi (a - 52)))"
proof -
  have "(2::rat) powi (a + 1) \<le> 2 powi 1023"
    using assms(4) by (intro power_int_increasing) simp_all
  with assms(2) have "\<bar>x\<bar> \<le> 2 ^ 1023" by simp
  then have "round_binary64 x = Fin (round_value x)" by (rule round_binary64_in_range)
  then show ?thesis by (simp only: round_value_normal [OF assms(1-3)])
qed

lemma MILES_PER_METER_value: "MILES_PER_METER = Fin (5731135905912489 / 2 ^ 63)"
  unfolding MILES_PER_METER_def
  using round_binary64_normal [of "- 11" "621371 / 1000000000"]
  by (simp add: round_half_even_def Let_def)

lemmas round_eval = round_half_even_def Let_def

lemma round_value_of_int:
  assumes "\<bar>k\<bar> \<le> 2 ^ 53"
  shows "round_value (of_int k) = of_int k"
proof -
  have g: "(of_int (n * 2 ^ 1074) :: rat) / grid = of_int n" for n
    by (simp add: grid_def)
  have "round_value (of_int (\<bar>k\<bar> * 2 ^ 1074) / grid) = of_int (\<bar>k\<bar> * 2 ^ 1074) / grid"
    using assms by (intro round_value_exact) simp_all
  then have abs: "round_value (of_int \<bar>k\<bar>) = of_int \<bar>k\<bar>" by (simp only: g)
  show ?thesis
  proof (cases "0 \<le> k")
    case True
    with abs show ?thesis by simp
  next
    case False
    with abs have "round_value (- of_int k) = - of_int k" by simp
    then show ?thesis by (simp add: round_value_minus)
  qed
qed

lemma round_half_even_zero [simp]: "round_half_even 0 = 0"
  using round_half_even_of_int [of 0] by simp

lemma round_binary64_of_int:
  assumes "\<bar>k\<bar> \<le> 2 ^ 53"
  shows "round_binary64 (of_int k) = Fin (of_int k)"
proof -
  have "\<bar>of_int k :: rat\<bar> \<le> of_int (2 ^ 53)"
    using assms by (simp only: of_int_abs [symmetric] of_int_le_iff)
  also have "(of_int (2 ^ 53) :: rat) \<le> 2 ^ 1023" by simp
  finally have "round_binary64 (of_int k) = Fin (round_value (of_int k))"
    by (rule round_binary64_in_range)
  then show ?thesis by (simp only: round_value_of_int [OF assms])
qed

lemma round_binary64_one [simp]: "round_binary64 1 = Fin 1"
  using round_binary64_of_int [of 1] by simp

lemma float_of_int_one [simp]: "float_of_int 1 = Inr (Fin 1)"
  by (simp add: float_of_int_def)

text \<open>The constants of the sample inputs are the floats that their decimal literals denote.\<close>

lemma tenth_literal: "round_binary64 (1 / 10) = Fin tenth"
  unfolding tenth_def using round_binary64_normal [of "- 4" "1 / 10"] by (simp add: round_eval)

lemma fifth_literal: "round_binary64 (2 / 10) = Fin fifth"
  unfolding fifth_def using round_binary64_normal [of "- 3" "2 / 10"] by (simp add: round_eval)

lemma mile_in_meters_literal:
  "round_binary64 (16093444978925634 / 10000000000000) = Fin mile_in_meters"
  unfolding mile_in_meters_def
  using round_binary64_normal [of 10 "16093444978925634 / 10000000000000"]
  by (simp add: round_eval)

section \<open>Properties of the parser\<close>

lemma find_child_append_hit:
  "find_child (Element tg tx (pre @ Element name tx' cs # post)) name \<noteq> None"
  by (auto simp: find_child_def find_None_iff intro: exI [of _ "Element name tx' cs"])

lemma parse_element_no_altitude:
  "find_child t ''AltitudeMeters'' = None \<Longrightarrow> parse_element pf sp t = Inr None"
  by (simp add: parse_element_def)

lemma parse_elements_append:
  "parse_elements pf sp (xs @ ys) =
     (case parse_elements pf sp xs of
        (as, Some e) \<Rightarrow> (as, Some e)
      | (as, None) \<Rightarrow> (case parse_elements pf sp ys of (bs, r) \<Rightarrow> (as @ bs, r)))"
  by (induction xs) (auto split: sum.splits option.splits prod.splits)

text \<open>
  C3 (the code departs from the claim). When the \<open>Time\<close> sub-element is present, the
  time read raises \<open>NameError\<close> instead of returning the value read from it; only the
  branch for an absent sub-element works, returning the parsed sentinel.
\<close>

theorem date_of_present_raises_NameError:
  "date_of sp (Element tg tx (pre @ Element name tx' cs # post)) name = Inl NameError"
  using find_child_append_hit [of tg tx pre name tx' cs post]
  by (auto simp: date_of_def split: option.splits)

lemma parse_element_error_kept:
  "parse_element pf sp t = Inl e \<Longrightarrow> find_child t ''AltitudeMeters'' \<noteq> None"
  by (auto simp: parse_element_def Let_def split: if_splits)

lemma parse_element_no_position:
  assumes "find_child t ''AltitudeMeters'' \<noteq> None" "find_child t ''Position'' = None"
  shows "\<exists>e. parse_element pf sp t = Inl e"
  using assms by (auto simp: parse_element_def Let_def child_float_def split: sum.splits)

lemma parse_element_no_position_AttributeError:
  assumes "find_child t ''AltitudeMeters'' \<noteq> None" "find_child t ''Position'' = None"
    "date_of sp t ''Time'' = Inr tm" "child_float pf (Some t) ''AltitudeMeters'' = Inr a"
    "float_of pf t ''DistanceMeters'' = Inr d"
  shows "parse_element pf sp t = Inl AttributeError"
  using assms by (auto simp: parse_element_def Let_def child_float_def split: sum.splits)

lemma parse_elements_error_member:
  "t \<in> set ts \<Longrightarrow> parse_element pf sp t = Inl e \<Longrightarrow> snd (parse_elements pf sp ts) \<noteq> None"
  by (induction ts) (auto split: sum.splits option.splits prod.splits)

lemma parse_elements_success:
  "snd (parse_elements pf sp ts) = None \<Longrightarrow>
     map (Inr \<circ> Some) (fst (parse_elements pf sp ts)) = map (parse_element pf sp) (filter kept ts)"
proof (induction ts)
  case Nil
  show ?case by simp
next
  case (Cons t ts)
  show ?case
  proof (cases "parse_element pf sp t")
    case (Inl e)
    with Cons.prems show ?thesis by simp
  next
    case (Inr r)
    show ?thesis
    proof (cases r)
      case None
      have "\<not> kept t"
        using Inr None by (auto simp: kept_def parse_element_def Let_def split: if_splits sum.splits)
      with Cons Inr None show ?thesis by simp
    next
      case (Some tp)
      have "kept t"
        using Inr Some by (auto simp: kept_def parse_element_def Let_def split: if_splits)
      with Cons Inr Some show ?thesis by (auto split: prod.splits)
    qed
  qed
qed

lemma parse_elements_prefix:
  "map (Inr \<circ> Some) (fst (parse_elements pf sp ts)) =
     map (parse_element pf sp) (take (length (fst (parse_elements pf sp ts))) (filter kept ts))"
proof (induction ts)
  case Nil
  show ?case by simp
next
  case (Cons t ts)
  show ?case
  proof (cases "parse_element pf sp t")
    case (Inl e)
    then show ?thesis by simp
  next
    case (Inr r)
    show ?thesis
    proof (cases r)
      case None
      have "\<not> kept t"
        using Inr None by (auto simp: kept_def parse_element_def Let_def split: if_splits sum.splits)
      with Cons Inr None show ?thesis by simp
    next
      case (Some tp)
      have "kept t"
        using Inr Some by (auto simp: kept_def parse_element_def Let_def split: if_splits)
      with Cons Inr Some show ?thesis by (auto split: prod.splits)
    qed
  qed
qed

lemma parse_elements_skip:
  assumes "find_child t ''AltitudeMeters'' = None"
  shows "parse_elements pf sp (pre @ t # post) = parse_elements pf sp (pre @ post)"
  using assms
  by (auto simp: parse_elements_append parse_element_no_altitude split: prod.splits option.splits)

lemmas sample_defs =
  sample_pf_def sample_point_def sample_no_altitude_def sample_no_position_def
  parse_trackpoints_def findall_descendants_def find_child_def parse_element_def
  date_of_def child_float_def float_of_def float_builtin_def kept_def

text \<open>
  C10. An element without \<open>AltitudeMeters\<close> yields nothing and raises nothing, whether
  or not it has a \<open>Position\<close>: the loop goes on with the next element. Line 215 looks
  \<open>Position\<close> up before the test of line 217, but nothing is read from the result until
  line 223, so an element on which the loop body raises has an altitude field.
\<close>

theorem parse_element_altitude_checked_first:
  "(find_child t ''AltitudeMeters'' = None \<longrightarrow>
      parse_element pf sp t = Inr None \<and> parse_elements pf sp (t # ts) = parse_elements pf sp ts)
   \<and> (parse_element pf sp t = Inl e \<longrightarrow> find_child t ''AltitudeMeters'' \<noteq> None)"
  using parse_element_error_kept [of pf sp t e]
  by (auto simp: parse_element_no_altitude)

theorem parse_element_altitude_checked_first_witness:
  "find_child (Element ''Trackpoint'' None []) ''AltitudeMeters'' = None
   \<and> find_child (Element ''Trackpoint'' None []) ''Position'' = None
   \<and> parse_element (\<lambda>s. None) (\<lambda>s f. None) (Element ''Trackpoint'' None []) = Inr None
   \<and> parse_elements (\<lambda>s. None) (\<lambda>s f. None) [Element ''Trackpoint'' None []] = ([], None)
   \<and> parse_element sample_pf (\<lambda>s f. Some 7) sample_no_position = Inl AttributeError
   \<and> find_child sample_no_position ''AltitudeMeters'' \<noteq> None"
  using parse_element_altitude_checked_first
          [of "Element ''Trackpoint'' None []" "\<lambda>s. None" "\<lambda>s f. None" "[]" AttributeError]
        parse_element_altitude_checked_first
          [of sample_no_position sample_pf "\<lambda>s f. Some 7" "[]" AttributeError]
  by (simp add: sample_defs)

text \<open>
  What holds of the parser whatever the samples contain. A sample without altitude is
  skipped: the outcome is the same as without the element. A kept sample without
  \<open>Position\<close> makes the read fail, and so the whole parse; the exception is the
  \<open>AttributeError\<close> of reading from the missing position unless an earlier field of
  the same sample (time, altitude, distance) has failed first. What the parser yields
  is the kept samples in document order up to the sample on which it raises.
\<close>

lemma parse_trackpoints_skip_fail_prefix:
  "(find_child t ''AltitudeMeters'' = None \<longrightarrow>
      parse_elements pf sp (pre @ t # post) = parse_elements pf sp (pre @ post))
   \<and> (find_child t ''AltitudeMeters'' \<noteq> None \<and> find_child t ''Position'' = None \<longrightarrow>
        (\<exists>e. parse_element pf sp t = Inl e)
        \<and> ((\<exists>tm. date_of sp t ''Time'' = Inr tm)
             \<and> (\<exists>a. child_float pf (Some t) ''AltitudeMeters'' = Inr a)
             \<and> (\<exists>d. float_of pf t ''DistanceMeters'' = Inr d) \<longrightarrow>
            parse_element pf sp t = Inl AttributeError)
        \<and> (t \<in> set (findall_descendants document ''Trackpoint'') \<longrightarrow>
            snd (parse_trackpoints pf sp document) \<noteq> None))
   \<and> map (Inr \<circ> Some) (fst (parse_trackpoints pf sp document)) =
       map (parse_element pf sp)
         (take (length (fst (parse_trackpoints pf sp document)))
            (filter kept (findall_descendants document ''Trackpoint'')))
   \<and> (snd (parse_trackpoints pf sp document) = None \<longrightarrow>
        map (Inr \<circ> Some) (fst (parse_trackpoints pf sp document)) =
        map (parse_element pf sp) (filter kept (findall_descendants document ''Trackpoint'')))"
proof (intro conjI impI)
  show "map (Inr \<circ> Some) (fst (parse_trackpoints pf sp document)) =
       map (parse_element pf sp)
         (take (length (fst (parse_trackpoints pf sp document)))
            (filter kept (findall_descendants document ''Trackpoint'')))"
    unfolding parse_trackpoints_def by (rule parse_elements_prefix)
next
  assume "find_child t ''AltitudeMeters'' = None"
  then show "parse_elements pf sp (pre @ t # post) = parse_elements pf sp (pre @ post)"
    by (rule parse_elements_skip)
next
  assume h: "find_child t ''AltitudeMeters'' \<noteq> None \<and> find_child t ''Position'' = None"
  then show "\<exists>e. parse_element pf sp t = Inl e"
    by (simp add: parse_element_no_position)
next
  assume h: "find_child t ''AltitudeMeters'' \<noteq> None \<and> find_child t ''Position'' = None"
    and g: "(\<exists>tm. date_of sp t ''Time'' = Inr tm)
             \<and> (\<exists>a. child_float pf (Some t) ''AltitudeMeters'' = Inr a)
             \<and> (\<exists>d. float_of pf t ''DistanceMeters'' = Inr d)"
  then show "parse_element pf sp t = Inl AttributeError"
    by (auto intro: parse_element_no_position_AttributeError)
next
  assume h: "find_child t ''AltitudeMeters'' \<noteq> None \<and> find_child t ''Position'' = None"
    and m: "t \<in> set (findall_descendants document ''Trackpoint'')"
  from h obtain e where "parse_element pf sp t = Inl e"
    using parse_element_no_position [of t pf sp] by auto
  with m show "snd (parse_trackpoints pf sp document) \<noteq> None"
    unfolding parse_trackpoints_def by (rule parse_elements_error_member)
next
  assume "snd (parse_trackpoints pf sp document) = None"
  then show "map (Inr \<circ> Some) (fst (parse_trackpoints pf sp document)) =
        map (parse_element pf sp) (filter kept (findall_descendants document ''Trackpoint''))"
    unfolding parse_trackpoints_def by (rule parse_elements_success)
qed

lemma findall_descendants_children:
  "findall_descendants (Element tg tx cs) name =
     concat (map (\<lambda>c. (if tag c = name then [c] else []) @ findall_descendants c name) cs)"
proof -
  have one: "filter (\<lambda>e. tag e = name) (iter c) =
      (if tag c = name then [c] else []) @ findall_descendants c name" for c
    by (cases c) (simp add: findall_descendants_def)
  have "filter (\<lambda>e. tag e = name) (concat (map iter cs)) =
      concat (map (\<lambda>c. (if tag c = name then [c] else []) @ findall_descendants c name) cs)"
    by (induction cs) (simp_all add: one)
  then show ?thesis by (simp add: findall_descendants_def)
qed

lemma parse_element_timed:
  assumes "find_child t ''AltitudeMeters'' \<noteq> None" "find_child t ''Time'' \<noteq> None"
  shows "parse_element pf sp t = Inl NameError"
  using assms by (auto simp: parse_element_def date_of_def)

lemma parse_elements_all_timed:
  assumes "\<forall>t \<in> set ts. find_child t ''Time'' \<noteq> None"
  shows "parse_elements pf sp ts = ([], if \<exists>t \<in> set ts. kept t then Some NameError else None)"
  using assms
proof (induction ts)
  case Nil
  show ?case by simp
next
  case (Cons t ts)
  show ?case
  proof (cases "kept t")
    case True
    then have "parse_element pf sp t = Inl NameError"
      using Cons.prems by (simp add: kept_def parse_element_timed)
    with True show ?thesis by simp
  next
    case False
    then have "parse_element pf sp t = Inr None"
      by (simp add: kept_def parse_element_no_altitude)
    with False Cons show ?thesis by simp
  qed
qed

lemma parse_elements_short:
  assumes "t \<in> set ts" "kept t" "parse_element pf sp t = Inl e"
  shows "length (fst (parse_elements pf sp ts)) < length (filter kept ts)"
proof (rule ccontr)
  assume "\<not> length (fst (parse_elements pf sp ts)) < length (filter kept ts)"
  then have "take (length (fst (parse_elements pf sp ts))) (filter kept ts) = filter kept ts"
    by simp
  then have "map (Inr \<circ> Some) (fst (parse_elements pf sp ts)) =
      map (parse_element pf sp) (filter kept ts)"
    using parse_elements_prefix [of pf sp ts] by simp
  moreover have "parse_element pf sp t \<in> set (map (parse_element pf sp) (filter kept ts))"
    using assms(1,2) by simp
  ultimately have "parse_element pf sp t \<in> set (map (Inr \<circ> Some) (fst (parse_elements pf sp ts)))"
    by simp
  then show False using assms(3) by auto
qed

text \<open>
  C6 (the code departs from the claim). \<open>findall\<close> gives the Trackpoint elements below
  the document element in document order, at any depth. A kept sample, one with an
  altitude field, that has a \<open>Time\<close> field makes the read of its time raise
  \<open>NameError\<close>: the parse ends with an exception and has yielded fewer Trackpoints
  than there are kept samples. When every sample of the document has a \<open>Time\<close> field
  and one of them is kept, the parser yields nothing at all and raises \<open>NameError\<close>.
\<close>

theorem parse_trackpoints_timed_sample_raises:
  "findall_descendants (Element tg tx cs) ''Trackpoint'' =
     concat (map (\<lambda>c. (if tag c = ''Trackpoint'' then [c] else [])
                        @ findall_descendants c ''Trackpoint'') cs)
   \<and> (t \<in> set (findall_descendants document ''Trackpoint'')
        \<and> find_child t ''AltitudeMeters'' \<noteq> None \<and> find_child t ''Time'' \<noteq> None \<longrightarrow>
        parse_element pf sp t = Inl NameError
        \<and> snd (parse_trackpoints pf sp document) \<noteq> None
        \<and> length (fst (parse_trackpoints pf sp document))
            < length (filter kept (findall_descendants document ''Trackpoint'')))
   \<and> ((\<exists>t \<in> set (findall_descendants document ''Trackpoint''). find_child t ''AltitudeMeters'' \<noteq> None)
        \<and> (\<forall>t \<in> set (findall_descendants document ''Trackpoint''). find_child t ''Time'' \<noteq> None) \<longrightarrow>
        parse_trackpoints pf sp document = ([], Some NameError))"
proof (intro conjI impI)
  show "findall_descendants (Element tg tx cs) ''Trackpoint'' =
     concat (map (\<lambda>c. (if tag c = ''Trackpoint'' then [c] else [])
                        @ findall_descendants c ''Trackpoint'') cs)"
    by (rule findall_descendants_children)
next
  assume h: "t \<in> set (findall_descendants document ''Trackpoint'')
        \<and> find_child t ''AltitudeMeters'' \<noteq> None \<and> find_child t ''Time'' \<noteq> None"
  then show e: "parse_element pf sp t = Inl NameError" by (simp add: parse_element_timed)
  from h e show "snd (parse_trackpoints pf sp document) \<noteq> None"
    unfolding parse_trackpoints_def using parse_elements_error_member by blast
  from h e show "length (fst (parse_trackpoints pf sp document))
            < length (filter kept (findall_descendants document ''Trackpoint''))"
    unfolding parse_trackpoints_def using parse_elements_short [of t _ pf sp NameError]
    by (simp add: kept_def)
next
  assume h: "(\<exists>t \<in> set (findall_descendants document ''Trackpoint''). find_child t ''AltitudeMeters'' \<noteq> None)
        \<and> (\<forall>t \<in> set (findall_descendants document ''Trackpoint''). find_child t ''Time'' \<noteq> None)"
  then have "\<exists>t \<in> set (findall_descendants document ''Trackpoint''). kept t"
    by (simp add: kept_def)
  with h show "parse_trackpoints pf sp document = ([], Some NameError)"
    unfolding parse_trackpoints_def
    using parse_elements_all_timed [of "findall_descendants document ''Trackpoint''" pf sp]
    by simp
qed

lemma findall_sample_document:
  "findall_descendants sample_document ''Trackpoint'' = [sample_timed, sample_timed]"
  by (simp add: sample_document_def sample_timed_def findall_descendants_def)

theorem parse_trackpoints_timed_sample_raises_witness:
  "findall_descendants sample_document ''Trackpoint'' = [sample_timed, sample_timed]
   \<and> find_child sample_timed ''AltitudeMeters'' \<noteq> None
   \<and> find_child sample_timed ''Time'' \<noteq> None
   \<and> length (filter kept (findall_descendants sample_document ''Trackpoint'')) = 2
   \<and> parse_element sample_pf (\<lambda>s f. Some 7) sample_timed = Inl NameError
   \<and> parse_trackpoints sample_pf (\<lambda>s f. Some 7) sample_document = ([], Some NameError)
   \<and> list_all kept [sample_point ''2.0'', sample_timed, sample_point ''1.0'']
   \<and> parse_trackpoints sample_pf (\<lambda>s f. Some 7)
        (Element ''Track'' None [sample_point ''2.0'', sample_timed, sample_point ''1.0'']) =
       ([\<lparr>time = 7, altitude_meters = Fin 2, distance_meters = NaN,
          latitude_degrees = Fin 1, longitude_degrees = Fin 2\<rparr>], Some NameError)"
proof -
  have a: "find_child sample_timed ''AltitudeMeters'' \<noteq> None"
    and tm: "find_child sample_timed ''Time'' \<noteq> None"
    by (simp_all add: sample_timed_def find_child_def)
  have k: "length (filter kept (findall_descendants sample_document ''Trackpoint'')) = 2"
    using a by (simp add: findall_sample_document kept_def)
  have m: "sample_timed \<in> set (findall_descendants sample_document ''Trackpoint'')"
    by (simp add: findall_sample_document)
  have ex: "\<exists>t \<in> set (findall_descendants sample_document ''Trackpoint'').
      find_child t ''AltitudeMeters'' \<noteq> None"
    using a by (simp add: findall_sample_document)
  have al: "\<forall>t \<in> set (findall_descendants sample_document ''Trackpoint'').
      find_child t ''Time'' \<noteq> None"
    using tm by (simp add: findall_sample_document)
  note doc = parse_trackpoints_timed_sample_raises
      [of "''Track''" None "[sample_timed]" sample_timed sample_document sample_pf "\<lambda>s f. Some 7"]
  have e: "parse_element sample_pf (\<lambda>s f. Some 7) sample_timed = Inl NameError"
    using doc m a tm by blast
  have r: "parse_trackpoints sample_pf (\<lambda>s f. Some 7) sample_document = ([], Some NameError)"
    using doc ex al by blast
  have k3: "list_all kept [sample_point ''2.0'', sample_timed, sample_point ''1.0'']"
    by (simp add: sample_defs sample_timed_def)
  have mid: "parse_trackpoints sample_pf (\<lambda>s f. Some 7)
        (Element ''Track'' None [sample_point ''2.0'', sample_timed, sample_point ''1.0'']) =
       ([\<lparr>time = 7, altitude_meters = Fin 2, distance_meters = NaN,
          latitude_degrees = Fin 1, longitude_degrees = Fin 2\<rparr>], Some NameError)"
    by (simp add: sample_defs sample_timed_def)
  from findall_sample_document a tm k e r k3 mid show ?thesis by simp
qed

section \<open>Properties of the caching geocoder\<close>

text \<open>
  C9. Two coordinates with the same key, looked up one after the other on a geocoder
  whose cache has no result under that key yet: when the underlying geocoder returns a
  result other than \<open>None\<close>, it is called once, by the first lookup, and the second
  lookup returns the result the first one stored, leaving the object as it is.
\<close>

theorem search_twice_invokes_once:
  assumes "cache_key fmt lat2 lon2 = cache_key fmt lat1 lon1"
    and "dict_get (data self) (cache_key fmt lat1 lon1) = None"
    and "rg [(lat1, lon1)] = Some r"
  shows "search fmt rg self lat1 lon1 =
           (Some r, self\<lparr>data := (data self)(cache_key fmt lat1 lon1 \<mapsto> Some r),
                          calls := calls self @ [[(lat1, lon1)]]\<rparr>)
     \<and> search fmt rg (snd (search fmt rg self lat1 lon1)) lat2 lon2 =
           (Some r, snd (search fmt rg self lat1 lon1))
     \<and> calls (snd (search fmt rg (snd (search fmt rg self lat1 lon1)) lat2 lon2)) =
           calls self @ [[(lat1, lon1)]]"
  using assms by (simp add: search_def Let_def dict_get_def)

theorem search_twice_invokes_once_witness:
  "cache_key (\<lambda>x. ''0.000000'') (Fin (2 / 10000000)) (Fin 0) =
     cache_key (\<lambda>x. ''0.000000'') (Fin (1 / 10000000)) (Fin 0)
   \<and> dict_get (data \<lparr>data = Map.empty, calls = []\<rparr>)
        (cache_key (\<lambda>x. ''0.000000'') (Fin (1 / 10000000)) (Fin 0)) = (None :: nat option)
   \<and> search (\<lambda>x. ''0.000000'') (\<lambda>ps. Some (length ps))
        (snd (search (\<lambda>x. ''0.000000'') (\<lambda>ps. Some (length ps)) \<lparr>data = Map.empty, calls = []\<rparr>
               (Fin (1 / 10000000)) (Fin 0)))
        (Fin (2 / 10000000)) (Fin 0) =
      (Some 1, \<lparr>data = [''0.000000 0.000000'' \<mapsto> Some 1],
                calls = [[(Fin (1 / 10000000), Fin 0)]]\<rparr>)"
  using search_twice_invokes_once
          [of "\<lambda>x. ''0.000000''" "Fin (2 / 10000000)" "Fin 0" "Fin (1 / 10000000)" "Fin 0"
              "\<lparr>data = Map.empty, calls = []\<rparr>" "\<lambda>ps. Some (length ps)" 1]
  by (simp add: cache_key_def dict_get_def search_def)

section \<open>Properties of the speed computation\<close>

lemma fdiv_error: "fdiv a b = Inl e \<Longrightarrow> b = Fin 0 \<and> e = ZeroDivisionError"
  by (cases a; cases b) (auto split: if_splits)

lemma fdiv_zero [simp]: "fdiv a (Fin 0) = Inl ZeroDivisionError"
  by simp

lemma grid_ge_million: "1000000 \<le> grid"
proof -
  have "(2::rat) ^ 20 \<le> 2 ^ 1074" by (intro power_increasing) simp_all
  then show ?thesis unfolding grid_def by simp
qed

lemma round_binary64_nonzero:
  assumes "1 / grid \<le> \<bar>x\<bar>"
  shows "round_binary64 x \<noteq> Fin 0"
  using round_value_nonzero [OF assms] by (auto simp: round_binary64_def Let_def)

lemma total_seconds_zero [simp]: "total_seconds 0 = Fin 0"
  by (simp add: total_seconds_def)

lemma total_seconds_nonzero:
  assumes "duration \<noteq> 0"
  shows "total_seconds duration \<noteq> Fin 0"
proof -
  have "1 \<le> \<bar>duration\<bar>" using assms by simp
  then have "(1::rat) \<le> \<bar>of_int duration\<bar>"
    by (metis of_int_1 of_int_abs of_int_le_iff)
  then have "1 / 1000000 \<le> \<bar>of_int duration / 1000000 :: rat\<bar>" by simp
  moreover have "1 / grid \<le> (1::rat) / 1000000"
    using grid_ge_million by (simp add: field_simps)
  ultimately have "1 / grid \<le> \<bar>of_int duration / 1000000 :: rat\<bar>" by linarith
  then show ?thesis unfolding total_seconds_def by (rule round_binary64_nonzero)
qed

lemma mph_float:
  "mph (PyFloat x) duration =
     (case fdiv (fmul x MILES_PER_METER) (total_seconds duration) of
        Inl e \<Rightarrow> Inr (Fin 0)
      | Inr q \<Rightarrow> Inr (fmul (fmul q (Fin 60)) (Fin 60)))"
  using fdiv_error [of "fmul x MILES_PER_METER" "total_seconds duration"]
  by (auto simp: mph_def num_mul_def split: sum.splits)

lemma mph_int:
  "mph (PyInt k) duration =
     (case float_of_int k of
        Inl e \<Rightarrow> Inl OverflowError
      | Inr y \<Rightarrow> mph (PyFloat y) duration)"
  by (auto simp: mph_def num_mul_def float_of_int_def split: sum.splits pyfloat.splits)

lemma mph_returns: "\<exists>v. mph (PyFloat meters) duration = Inr v"
  by (simp add: mph_float split: sum.splits)

lemma float_of_int_error: "float_of_int k = Inl e \<Longrightarrow> e = OverflowError"
  by (auto simp: float_of_int_def split: pyfloat.splits)

lemma float_of_int_in_range:
  assumes "\<bar>k\<bar> \<le> 2 ^ 1023"
  shows "\<exists>y. float_of_int k = Inr y"
proof -
  have "\<bar>of_int k :: rat\<bar> \<le> of_int (2 ^ 1023)"
    using assms by (metis of_int_abs of_int_le_iff)
  then have "\<bar>of_int k :: rat\<bar> \<le> 2 ^ 1023" by simp
  then have "round_binary64 (of_int k) = Fin (round_value (of_int k))"
    by (rule round_binary64_in_range)
  then show ?thesis by (simp add: float_of_int_def)
qed

lemma float_of_int_zero [simp]: "float_of_int 0 = Inr (Fin 0)"
  by (simp add: float_of_int_def)

lemma float_of_int_too_large: "float_of_int (2 ^ 1024) = Inl OverflowError"
proof -
  have "round_value (2 ^ 1024) = 2 ^ 1024" by (rule round_value_power2_up)
  then have "round_binary64 (2 ^ 1024) = PInf" by (simp add: round_binary64_def)
  then show ?thesis by (simp add: float_of_int_def)
qed

text \<open>
  C5, as amended. For a float \<open>meters\<close>, not-a-number and the infinities among them,
  and for an int \<open>meters\<close> that converts to a float, as every int of magnitude at most
  \<open>2\<^sup>1\<^sup>0\<^sup>2\<^sup>3\<close> does, \<open>mph\<close> returns \<open>0.0\<close> for a duration of zero and raises nothing;
  so does \<open>mph(0, zero-duration)\<close>. An int \<open>meters\<close> too large for a float raises
  \<open>OverflowError\<close>, whatever the duration. For any other duration the division
  succeeds and \<open>mph\<close> returns the float quotient
  \<open>meters * MILES_PER_METER / duration_seconds\<close> times 60 times 60, each product
  rounded.
\<close>

theorem mph_zero_duration_or_formula:
  "mph (PyFloat x) 0 = Inr (Fin 0)
   \<and> mph (PyInt 0) 0 = Inr (Fin 0)
   \<and> (\<bar>k\<bar> \<le> 2 ^ 1023 \<longrightarrow> (\<exists>y. float_of_int k = Inr y))
   \<and> (float_of_int k = Inr y \<longrightarrow> mph (PyInt k) 0 = Inr (Fin 0))
   \<and> (float_of_int k = Inl e \<longrightarrow> e = OverflowError \<and> mph (PyInt k) duration = Inl OverflowError)
   \<and> (duration \<noteq> 0 \<longrightarrow>
        (\<exists>q. fdiv (fmul x MILES_PER_METER) (total_seconds duration) = Inr q
             \<and> mph (PyFloat x) duration = Inr (fmul (fmul q (Fin 60)) (Fin 60))))
   \<and> (duration \<noteq> 0 \<and> float_of_int k = Inr y \<longrightarrow>
        (\<exists>q. fdiv (fmul y MILES_PER_METER) (total_seconds duration) = Inr q
             \<and> mph (PyInt k) duration = Inr (fmul (fmul q (Fin 60)) (Fin 60))))"
proof -
  have quotient: "\<exists>q. fdiv (fmul z MILES_PER_METER) (total_seconds duration) = Inr q
      \<and> mph (PyFloat z) duration = Inr (fmul (fmul q (Fin 60)) (Fin 60))"
    if "duration \<noteq> 0" for z
  proof -
    from that have nz: "total_seconds duration \<noteq> Fin 0" by (rule total_seconds_nonzero)
    obtain q where q: "fdiv (fmul z MILES_PER_METER) (total_seconds duration) = Inr q"
      using fdiv_error [of "fmul z MILES_PER_METER" "total_seconds duration"] nz
      by (cases "fdiv (fmul z MILES_PER_METER) (total_seconds duration)") auto
    then show ?thesis by (simp add: mph_float)
  qed
  have c1: "mph (PyFloat x) 0 = Inr (Fin 0)" by (simp add: mph_float)
  have c2: "mph (PyInt 0) 0 = Inr (Fin 0)" by (simp add: mph_int mph_float)
  have c3: "\<bar>k\<bar> \<le> 2 ^ 1023 \<longrightarrow> (\<exists>y. float_of_int k = Inr y)"
    using float_of_int_in_range by blast
  have c4: "float_of_int k = Inr y \<longrightarrow> mph (PyInt k) 0 = Inr (Fin 0)"
    by (simp add: mph_int mph_float)
  have c5: "float_of_int k = Inl e \<longrightarrow> e = OverflowError \<and> mph (PyInt k) duration = Inl OverflowError"
    using float_of_int_error [of k e] by (simp add: mph_int)
  have c6: "duration \<noteq> 0 \<longrightarrow>
        (\<exists>q. fdiv (fmul x MILES_PER_METER) (total_seconds duration) = Inr q
             \<and> mph (PyFloat x) duration = Inr (fmul (fmul q (Fin 60)) (Fin 60)))"
    using quotient by blast
  have c7: "duration \<noteq> 0 \<and> float_of_int k = Inr y \<longrightarrow>
        (\<exists>q. fdiv (fmul y MILES_PER_METER) (total_seconds duration) = Inr q
             \<and> mph (PyInt k) duration = Inr (fmul (fmul q (Fin 60)) (Fin 60)))"
    using quotient [of y] by (auto simp: mph_int)
  from c1 c2 c3 c4 c5 c6 c7 show ?thesis by blast
qed

lemma mile_in_miles: "fmul (Fin mile_in_meters) MILES_PER_METER = Fin 1"
  unfolding MILES_PER_METER_value mile_in_meters_def
  using round_binary64_normal [of 0 "7077971954120807 / 2 ^ 42 * (5731135905912489 / 2 ^ 63)"]
  by (simp add: round_eval)

lemma one_hour: "total_seconds 3600000000 = Fin 3600"
  unfolding total_seconds_def using round_binary64_of_int [of 3600] by simp

lemma one_over_3600: "fdiv (Fin 1) (Fin 3600) = Inr (Fin (5124095576030431 / 2 ^ 64))"
  using round_binary64_normal [of "- 12" "1 / 3600"] by (simp add: round_eval)

lemma times_60_a: "fmul (Fin (5124095576030431 / 2 ^ 64)) (Fin 60) = Fin (4803839602528529 / 2 ^ 58)"
  using round_binary64_normal [of "- 6" "5124095576030431 / 2 ^ 64 * 60"] by (simp add: round_eval)

lemma times_60_b: "fmul (Fin (4803839602528529 / 2 ^ 58)) (Fin 60) = Fin 1"
  using round_binary64_normal [of "- 1" "4803839602528529 / 2 ^ 58 * 60"] by (simp add: round_eval)

theorem mph_zero_duration_or_formula_witness:
  "mph (PyFloat (Fin 0)) 0 = Inr (Fin 0)
   \<and> mph (PyInt 0) 0 = Inr (Fin 0)
   \<and> \<bar>0 :: int\<bar> \<le> 2 ^ 1023
   \<and> float_of_int 0 = Inr (Fin 0)
   \<and> float_of_int (2 ^ 1024) = Inl OverflowError
   \<and> mph (PyInt (2 ^ 1024)) 0 = Inl OverflowError
   \<and> (3600000000 :: int) \<noteq> 0
   \<and> mph (PyFloat (Fin mile_in_meters)) 3600000000 = Inr (Fin 1)
   \<and> mph (PyInt 0) 3600000000 = Inr (Fin 0)"
proof -
  note at_mile = mph_zero_duration_or_formula [of "Fin mile_in_meters" 0 "Fin 0" OverflowError 3600000000]
  note at_large = mph_zero_duration_or_formula [of "Fin 0" "2 ^ 1024" "Fin 0" OverflowError 0]
  have q: "fdiv (fmul (Fin mile_in_meters) MILES_PER_METER) (total_seconds 3600000000) =
      Inr (Fin (5124095576030431 / 2 ^ 64))"
    by (simp only: mile_in_miles one_hour one_over_3600)
  obtain q' where a: "fdiv (fmul (Fin mile_in_meters) MILES_PER_METER) (total_seconds 3600000000) = Inr q'"
    and b: "mph (PyFloat (Fin mile_in_meters)) 3600000000 = Inr (fmul (fmul q' (Fin 60)) (Fin 60))"
    using at_mile by auto
  from a q have "q' = Fin (5124095576030431 / 2 ^ 64)" by (simp only: sum.inject)
  with b have w1: "mph (PyFloat (Fin mile_in_meters)) 3600000000 = Inr (Fin 1)"
    by (simp only: times_60_a times_60_b)
  obtain q0 where a0: "fdiv (fmul (Fin 0) MILES_PER_METER) (total_seconds 3600000000) = Inr q0"
    and b0: "mph (PyInt 0) 3600000000 = Inr (fmul (fmul q0 (Fin 60)) (Fin 60))"
    using at_mile by auto
  have "fdiv (fmul (Fin 0) MILES_PER_METER) (total_seconds 3600000000) = Inr (Fin 0)"
    by (simp add: MILES_PER_METER_value one_hour)
  with a0 have "q0 = Fin 0" by simp
  with b0 have w2: "mph (PyInt 0) 3600000000 = Inr (Fin 0)" by simp
  have w3: "mph (PyInt (2 ^ 1024)) 0 = Inl OverflowError"
    using at_large float_of_int_too_large by blast
  have w4: "mph (PyFloat (Fin 0)) 0 = Inr (Fin 0)" "mph (PyInt 0) 0 = Inr (Fin 0)"
    using at_large by blast+
  from w1 w2 w3 w4 float_of_int_too_large show ?thesis by simp
qed

lemma miles_3200: "fmul (Fin 3200) MILES_PER_METER = Fin (1119362481623533 / 2 ^ 49)"
  unfolding MILES_PER_METER_value
  using round_binary64_normal [of 0 "3200 * (5731135905912489 / 2 ^ 63)"]
  by (simp add: round_eval)

lemma one_second: "total_seconds 1000000 = Fin 1"
  unfolding total_seconds_def by simp

lemma miles_3200_per_second:
  "fdiv (Fin (1119362481623533 / 2 ^ 49)) (Fin 1) = Inr (Fin (1119362481623533 / 2 ^ 49))"
  using round_binary64_normal [of 0 "1119362481623533 / 2 ^ 49"]
  by (simp add: round_eval)

lemma times_60_c:
  "fmul (Fin (1119362481623533 / 2 ^ 49)) (Fin 60) = Fin (4197609306088249 / 2 ^ 45)"
  using round_binary64_normal [of 6 "1119362481623533 / 2 ^ 49 * 60"] by (simp add: round_eval)

lemma times_60_d:
  "fmul (Fin (4197609306088249 / 2 ^ 45)) (Fin 60) = Fin (7870517448915467 / 2 ^ 40)"
  using round_binary64_normal [of 12 "4197609306088249 / 2 ^ 45 * 60"] by (simp add: round_eval)

lemma times_3600:
  "fmul (Fin (1119362481623533 / 2 ^ 49)) (Fin 3600) = Fin (3935258724457733 / 2 ^ 39)"
  using round_binary64_normal [of 12 "1119362481623533 / 2 ^ 49 * 3600"] by (simp add: round_eval)

text \<open>
  C5 as stated fails. For 3200 m in one second the quotient is the float \<open>1.9883872\<close>;
  \<open>mph\<close> multiplies it by 60 twice and returns \<open>7158.193920000001\<close>, where the
  formula with the factor 3600 gives \<open>7158.19392\<close>. And for an int \<open>meters\<close> beyond the
  range of the floats the product \<open>meters * MILES_PER_METER\<close> raises \<open>OverflowError\<close>,
  which \<open>mph\<close> does not catch, also when the duration is zero.
\<close>

theorem mph_factor_3600_counterexample:
  "mph (PyFloat (Fin 3200)) 1000000 = Inr (Fin (7870517448915467 / 2 ^ 40))
   \<and> mph_formula (Fin 3200) 1000000 = Inr (Fin (3935258724457733 / 2 ^ 39))
   \<and> mph (PyFloat (Fin 3200)) 1000000 \<noteq> mph_formula (Fin 3200) 1000000
   \<and> mph (PyInt (2 ^ 1024)) 0 = Inl OverflowError"
proof -
  have a: "mph (PyFloat (Fin 3200)) 1000000 = Inr (Fin (7870517448915467 / 2 ^ 40))"
    unfolding mph_float
    by (simp only: miles_3200 one_second miles_3200_per_second sum.case times_60_c times_60_d)
  have nz: "total_seconds 1000000 \<noteq> Fin 0" by (simp add: one_second)
  have b: "mph_formula (Fin 3200) 1000000 = Inr (Fin (3935258724457733 / 2 ^ 39))"
    unfolding mph_formula_def using nz
    by (simp only: miles_3200 one_second miles_3200_per_second sum.case times_3600 if_False)
  have c: "(7870517448915467 / 2 ^ 40 :: rat) \<noteq> 3935258724457733 / 2 ^ 39" by simp
  have d: "mph (PyInt (2 ^ 1024)) 0 = Inl OverflowError"
    by (simp only: mph_int float_of_int_too_large sum.case)
  from a b c d show ?thesis by simp
qed

section \<open>Properties of the milepost synthesis\<close>

lemma fmul_NaN [simp]: "fmul NaN b = NaN"
  by (cases b) simp_all

text \<open>
  C7. A kept sample without \<open>DistanceMeters\<close> gets the distance not-a-number. Its
  distance in miles is then not-a-number too, the test \<open>miles > next_mile\<close> is false,
  and the \<open>while\<close> loop for that sample yields nothing and raises nothing: the \<open>for\<close>
  loop goes on to the next sample with \<open>next_mile\<close> unchanged.
\<close>

theorem missing_distance_disables_milepost:
  "(find_child t ''DistanceMeters'' = None \<longrightarrow> float_of pf t ''DistanceMeters'' = Inr NaN)
   \<and> (find_child t ''DistanceMeters'' = None \<and> parse_element pf sp t = Inr (Some point) \<longrightarrow>
        distance_meters point = NaN)
   \<and> (distance_meters point = NaN \<longrightarrow>
        mile_loop previous_time previous_miles previous_point point
          (fmul (distance_meters point) MILES_PER_METER) next_mile = ([], Inr next_mile)
        \<and> for_points previous_time previous_miles previous_point next_mile (point # rest) =
            for_points (DateTime (time point)) NaN (Some point) next_mile rest)"
  by (auto simp: float_of_def parse_element_def Let_def split: sum.splits if_splits prod.splits)


theorem missing_distance_disables_milepost_witness:
  "find_child (sample_point ''1.0'') ''DistanceMeters'' = None
   \<and> float_of sample_pf (sample_point ''1.0'') ''DistanceMeters'' = Inr NaN
   \<and> parse_element sample_pf (\<lambda>s f. Some 7) (sample_point ''1.0'') =
       Inr (Some \<lparr>time = 7, altitude_meters = Fin 1, distance_meters = NaN,
                   latitude_degrees = Fin 1, longitude_degrees = Fin 2\<rparr>)
   \<and> compute_mileposts
         [\<lparr>time = 7, altitude_meters = Fin 1, distance_meters = NaN,
           latitude_degrees = Fin 1, longitude_degrees = Fin 2\<rparr>] = ([], None)"
  using missing_distance_disables_milepost
          [of "sample_point ''1.0''" sample_pf "\<lambda>s f. Some 7"
              "\<lparr>time = 7, altitude_meters = Fin 1, distance_meters = NaN,
                latitude_degrees = Fin 1, longitude_degrees = Fin 2\<rparr>"
              "IntTime 0" "Fin 0" None 1 "[]"]
  by (simp add: sample_defs compute_mileposts_def)

lemma timedelta_mul_zero [simp]: "timedelta_mul delta (Fin 0) = Inr 0"
  by (simp add: timedelta_mul_def)

lemma timedelta_mul_one [simp]: "timedelta_mul delta (Fin 1) = Inr delta"
  by (simp add: timedelta_mul_def)

lemma interpolate_one_error:
  assumes "fsub (Fin b) (Fin a) = Fin d" and "interpolate (Fin a) (Fin b) (Fin 1) = Fin r"
  shows "\<bar>r - b\<bar> \<le> (\<bar>b - a\<bar> + \<bar>a + d\<bar>) / 2 ^ 53 + 1 / grid"
proof -
  have rd: "round_binary64 (b - a) = Fin d" using assms(1) by (simp add: fsub_def)
  then have d: "d = round_value (b - a)" by (simp add: round_binary64_Fin_iff)
  have "binary64 d" using rd by (rule round_binary64_binary64)
  then have "round_binary64 d = Fin d" by (simp add: binary64_def)
  then have "round_binary64 (a + d) = Fin r"
    using assms by (simp add: interpolate_def)
  then have r: "r = round_value (a + d)" by (simp add: round_binary64_Fin_iff)
  have e1: "\<bar>d - (b - a)\<bar> \<le> \<bar>b - a\<bar> / 2 ^ 53 + 1 / (2 * grid)"
    unfolding d by (rule round_value_error)
  have e2: "\<bar>r - (a + d)\<bar> \<le> \<bar>a + d\<bar> / 2 ^ 53 + 1 / (2 * grid)"
    unfolding r by (rule round_value_error)
  have "r - b = (r - (a + d)) + (d - (b - a))" by simp
  then have "\<bar>r - b\<bar> \<le> \<bar>r - (a + d)\<bar> + \<bar>d - (b - a)\<bar>"
    by (simp only: abs_triangle_ineq)
  also have "\<dots> \<le> (\<bar>a + d\<bar> / 2 ^ 53 + 1 / (2 * grid)) + (\<bar>b - a\<bar> / 2 ^ 53 + 1 / (2 * grid))"
    using e2 e1 by (rule add_mono)
  also have "\<dots> = (\<bar>b - a\<bar> + \<bar>a + d\<bar>) / 2 ^ 53 + 1 / grid"
    by (simp add: add_divide_distrib)
  finally show ?thesis .
qed

text \<open>
  C8, as amended. At fraction 0 the interpolation of two floats returns the earlier
  value whenever the float difference of the two is finite. At fraction 1 it returns
  the later value \<open>b\<close> when the difference \<open>b - a\<close> is computed without rounding; when
  the difference is rounded to a float \<open>d\<close>, a finite result lies within
  \<open>2\<^sup>-\<^sup>5\<^sup>3 (|b - a| + |a + d|) + 2\<^sup>-\<^sup>1\<^sup>0\<^sup>7\<^sup>4\<close> of \<open>b\<close>. The interpolated time is the earlier
  time at fraction 0 and the later time at fraction 1.
\<close>

theorem interpolate_endpoints:
  "(binary64 a \<and> (\<exists>c. fsub (Fin b) (Fin a) = Fin c) \<longrightarrow>
      interpolate (Fin a) (Fin b) (Fin 0) = Fin a)
   \<and> (binary64 b \<and> fsub (Fin b) (Fin a) = Fin (b - a) \<longrightarrow>
      interpolate (Fin a) (Fin b) (Fin 1) = Fin b)
   \<and> (fsub (Fin b) (Fin a) = Fin d \<and> interpolate (Fin a) (Fin b) (Fin 1) = Fin r \<longrightarrow>
      \<bar>r - b\<bar> \<le> (\<bar>b - a\<bar> + \<bar>a + d\<bar>) / 2 ^ 53 + 1 / grid)
   \<and> interpolate_time (DateTime t0) t1 (Fin 0) = Inr t0
   \<and> interpolate_time (DateTime t0) t1 (Fin 1) = Inr t1"
proof (intro conjI impI)
  assume h: "binary64 a \<and> (\<exists>c. fsub (Fin b) (Fin a) = Fin c)"
  then obtain c where "fsub (Fin b) (Fin a) = Fin c" by auto
  moreover have "round_binary64 a = Fin a" using h by (simp add: binary64_def)
  ultimately show "interpolate (Fin a) (Fin b) (Fin 0) = Fin a"
    by (simp add: interpolate_def)
next
  assume h: "binary64 b \<and> fsub (Fin b) (Fin a) = Fin (b - a)"
  then have "round_binary64 (b - a) = Fin (b - a)" by (simp add: fsub_def)
  moreover have "round_binary64 b = Fin b" using h by (simp add: binary64_def)
  ultimately show "interpolate (Fin a) (Fin b) (Fin 1) = Fin b"
    using h by (simp add: interpolate_def)
next
  assume "fsub (Fin b) (Fin a) = Fin d \<and> interpolate (Fin a) (Fin b) (Fin 1) = Fin r"
  then show "\<bar>r - b\<bar> \<le> (\<bar>b - a\<bar> + \<bar>a + d\<bar>) / 2 ^ 53 + 1 / grid"
    using interpolate_one_error by blast
next
  show "interpolate_time (DateTime t0) t1 (Fin 0) = Inr t0"
    by (simp add: interpolate_time_def)
next
  show "interpolate_time (DateTime t0) t1 (Fin 1) = Inr t1"
    by (simp add: interpolate_time_def)
qed

lemma binary64_forty: "binary64 40"
  unfolding binary64_def using round_binary64_of_int [of 40] by simp

lemma binary64_tenth: "binary64 tenth"
  unfolding binary64_def tenth_def
  using round_binary64_normal [of "- 4" "3602879701896397 / 2 ^ 55"]
  by (simp add: round_eval)

lemma tenth_minus_forty: "fsub (Fin tenth) (Fin 40) = Fin (- (5615425785377587 / 2 ^ 47))"
  unfolding fsub_def tenth_def
  using round_binary64_normal [of 5 "3602879701896397 / 2 ^ 55 + - 40"]
  by (simp add: round_eval)

lemma times_one: "fmul (Fin (- (5615425785377587 / 2 ^ 47))) (Fin 1) = Fin (- (5615425785377587 / 2 ^ 47))"
  using round_binary64_normal [of 5 "- (5615425785377587 / 2 ^ 47) * 1"]
  by (simp add: round_eval)

lemma forty_plus: "fadd (Fin 40) (Fin (- (5615425785377587 / 2 ^ 47))) = Fin (14073748835533 / 2 ^ 47)"
  using round_binary64_normal [of "- 4" "40 + - (5615425785377587 / 2 ^ 47)"]
  by (simp add: round_eval)

lemma interpolate_forty_tenth:
  "interpolate (Fin 40) (Fin tenth) (Fin 1) = Fin (14073748835533 / 2 ^ 47)"
  by (simp only: interpolate_def tenth_minus_forty times_one forty_plus)

text \<open>
  C8 as stated fails: from \<open>40.0\<close> to \<open>0.1\<close> the difference is rounded, and the
  interpolation at fraction 1 returns \<open>0.10000000000000142\<close>.
\<close>

theorem interpolate_fraction_one_counterexample:
  "binary64 40 \<and> binary64 tenth
   \<and> interpolate (Fin 40) (Fin tenth) (Fin 1) = Fin (14073748835533 / 2 ^ 47)
   \<and> interpolate (Fin 40) (Fin tenth) (Fin 1) \<noteq> Fin tenth"
proof -
  have "(14073748835533 / 2 ^ 47 :: rat) \<noteq> tenth"
    by (simp add: tenth_def)
  then show ?thesis
    using binary64_forty binary64_tenth interpolate_forty_tenth by simp
qed

lemma three_minus_one: "fsub (Fin 3) (Fin 1) = Fin (3 - 1)"
  unfolding fsub_def using round_binary64_of_int [of 2] by simp

lemma binary64_three: "binary64 3"
  unfolding binary64_def using round_binary64_of_int [of 3] by simp

theorem interpolate_endpoints_witness:
  "binary64 40 \<and> fsub (Fin tenth) (Fin 40) = Fin (- (5615425785377587 / 2 ^ 47))
   \<and> interpolate (Fin 40) (Fin tenth) (Fin 0) = Fin 40
   \<and> binary64 3 \<and> fsub (Fin 3) (Fin 1) = Fin (3 - 1)
   \<and> interpolate (Fin 1) (Fin 3) (Fin 1) = Fin 3
   \<and> interpolate (Fin 40) (Fin tenth) (Fin 1) = Fin (14073748835533 / 2 ^ 47)
   \<and> \<bar>14073748835533 / 2 ^ 47 - tenth\<bar>
       \<le> (\<bar>tenth - 40\<bar> + \<bar>40 + - (5615425785377587 / 2 ^ 47)\<bar>) / 2 ^ 53 + 1 / grid
   \<and> interpolate_time (DateTime 5) 9 (Fin 0) = Inr 5
   \<and> interpolate_time (DateTime 5) 9 (Fin 1) = Inr 9"
  using interpolate_endpoints
          [where a = 40 and b = tenth and d = "- (5615425785377587 / 2 ^ 47)"
             and r = "14073748835533 / 2 ^ 47" and ?t0.0 = 5 and ?t1.0 = 9]
        interpolate_endpoints
          [where a = 1 and b = 3 and d = 0 and r = 0 and ?t0.0 = 5 and ?t1.0 = 9]
    binary64_forty tenth_minus_forty interpolate_forty_tenth
    binary64_three three_minus_one
  by blast

lemma milepost_at_first_sample:
  assumes "fgt_int miles 1"
  shows "milepost_at (IntTime 0) (Fin 0) None point miles 1 = Inl TypeError"
proof -
  have one: "fsub (Fin 1) (Fin 0) = Fin 1" by (simp add: fsub_def)
  have "\<exists>q. fdiv (Fin 1) (fsub miles (Fin 0)) = Inr q"
  proof (cases miles)
    case (Fin m)
    with assms have "1 < m" by simp
    moreover have "1 / grid \<le> 1" using grid_ge_million by simp
    ultimately have "1 / grid \<le> \<bar>m\<bar>" by linarith
    then have "round_binary64 m \<noteq> Fin 0" by (rule round_binary64_nonzero)
    then have "fsub miles (Fin 0) \<noteq> Fin 0" using Fin by (simp add: fsub_def)
    then show ?thesis
      using fdiv_error [of "Fin 1" "fsub miles (Fin 0)"]
      by (cases "fdiv (Fin 1) (fsub miles (Fin 0))") auto
  qed (use assms in \<open>simp_all add: fsub_def\<close>)
  then show ?thesis
    by (auto simp: milepost_at_def one interpolate_time_def)
qed

text \<open>
  C4 (the code departs from the claim). When the first sample lies beyond mile 1, the
  loop body runs while \<open>previous_time\<close> is still the int \<open>0\<close> of line 244 and
  \<open>previous_point\<close> is unbound: line 251 subtracts the int from a datetime and raises
  \<open>TypeError\<close> before any milepost is yielded.
\<close>

theorem compute_mileposts_first_sample_beyond_mile_1:
  assumes "fgt_int (fmul (distance_meters p) MILES_PER_METER) 1"
  shows "compute_mileposts (p # ps) = ([], Some TypeError)"
  using assms milepost_at_first_sample [OF assms, of p]
  by (simp add: compute_mileposts_def)

lemma two_km_in_miles: "fmul (Fin 2000) MILES_PER_METER = Fin (5596812408117665 / 2 ^ 52)"
  unfolding MILES_PER_METER_value
  using round_binary64_normal [of 0 "2000 * (5731135905912489 / 2 ^ 63)"]
  by (simp add: round_eval)

theorem compute_mileposts_first_sample_beyond_mile_1_witness:
  "fgt_int (fmul (distance_meters (sample_at 0 2000)) MILES_PER_METER) 1
   \<and> compute_mileposts [sample_at 0 2000] = ([], Some TypeError)"
proof -
  have "fgt_int (fmul (distance_meters (sample_at 0 2000)) MILES_PER_METER) 1"
    by (simp add: sample_at_def two_km_in_miles)
  then show ?thesis
    using compute_mileposts_first_sample_beyond_mile_1 [of "sample_at 0 2000" "[]"] by simp
qed

lemma MILES_PER_METER_mpm: "MILES_PER_METER = Fin mpm"
  by (simp only: MILES_PER_METER_value mpm_def)

lemma mpm_pos: "0 < mpm"
  by (simp add: mpm_def)

lemma mpm_le: "mpm \<le> 1 / 2 ^ 10"
  by (simp add: mpm_def)

lemma binary64_round_value: "binary64 x \<Longrightarrow> round_value x = x"
  by (simp add: binary64_iff)

lemma binary64_on_grid:
  assumes "binary64 x"
  shows "\<exists>N::int. x = of_int N / grid"
proof -
  have "x = round_value x" using assms by (simp add: binary64_iff)
  also have "\<dots> = of_int ((if 0 \<le> x then 1 else - 1) * round_scaled (\<bar>x\<bar> * grid)) / grid"
    by (cases "x = 0") (auto simp: round_value_def sgn_if)
  finally show ?thesis by blast
qed

lemma round_value_grid_unit: "round_value (1 / grid) = 1 / grid"
  unfolding grid_def by (rule round_value_power2_down) simp

lemma round_value_difference_pos:
  assumes "binary64 x" "binary64 y" "y < x"
  shows "0 < round_value (x - y)"
proof -
  obtain N M :: int where x: "x = of_int N / grid" and y: "y = of_int M / grid"
    using binary64_on_grid assms(1,2) by blast
  have "x - y = of_int (N - M) / grid" by (simp add: x y diff_divide_distrib)
  moreover from assms(3) have "(of_int M :: rat) < of_int N"
    unfolding x y by (simp add: divide_less_cancel)
  then have "1 \<le> N - M" by simp
  then have "(1::rat) \<le> of_int (N - M)" by (metis of_int_1 of_int_le_iff)
  then have "(1::rat) / grid \<le> of_int (N - M) / grid" by (intro divide_right_mono) simp_all
  ultimately have "1 / grid \<le> x - y" by simp
  then have "round_value (1 / grid) \<le> round_value (x - y)" by (rule round_value_mono)
  then have "1 / grid \<le> round_value (x - y)" by (simp only: round_value_grid_unit)
  moreover have "0 < 1 / grid" by simp
  ultimately show ?thesis by linarith
qed

lemma pow_1014_le_1023: "(2::rat) ^ 1014 \<le> 2 ^ 1023"
  by (intro power_increasing) simp_all

lemma pow_1015_le_1023: "(2::rat) ^ 1014 + 2 ^ 1014 \<le> 2 ^ 1023"
proof -
  have "(2::rat) ^ 1014 + 2 ^ 1014 = 2 ^ 1015" by simp
  also have "\<dots> \<le> 2 ^ 1023" by (intro power_increasing) simp_all
  finally show ?thesis .
qed

lemma round_sum_finite:
  assumes "\<bar>x\<bar> \<le> 2 ^ 1014" "\<bar>y\<bar> \<le> 2 ^ 1014"
  shows "fsub (Fin x) (Fin y) = Fin (round_value (x - y))"
proof -
  have "\<bar>x + - y\<bar> \<le> 2 ^ 1014 + 2 ^ 1014" using assms by linarith
  then have "\<bar>x + - y\<bar> \<le> 2 ^ 1023" using pow_1015_le_1023 by linarith
  then have "round_binary64 (x + - y) = Fin (round_value (x + - y))"
    by (rule round_binary64_in_range)
  then show ?thesis by (simp add: fsub_def)
qed

lemma milepost_at_finite:
  assumes p: "binary64 p" "\<bar>p\<bar> \<le> 2 ^ 1014" and m: "binary64 m" "\<bar>m\<bar> \<le> 2 ^ 1014"
    and pk: "p \<le> of_int k" and km: "of_int k < m" and k1: "1 \<le> k"
  shows "\<exists>tp. milepost_at (DateTime t0) (Fin p) (Some q) point (Fin m) k = Inr tp
              \<and> Inr (distance_meters tp) = mile_distance k"
proof -
  define kf where "kf = round_value (of_int k)"
  have kpos: "(0::rat) \<le> of_int k" using k1 by simp
  have kb: "\<bar>of_int k :: rat\<bar> \<le> 2 ^ 1014" using kpos km m(2) by linarith
  then have "\<bar>of_int k :: rat\<bar> \<le> 2 ^ 1023" using pow_1014_le_1023 by linarith
  then have "round_binary64 (of_int k) = Fin kf"
    unfolding kf_def by (rule round_binary64_in_range)
  then have F1: "float_of_int k = Inr (Fin kf)" by (simp add: float_of_int_def)
  have pkf: "p \<le> kf"
    using round_value_mono [OF pk] p(1) by (simp add: kf_def binary64_round_value)
  have kfm: "kf \<le> m"
    using round_value_mono [of "of_int k" m] km m(1) by (simp add: kf_def binary64_round_value)
  have kfb: "\<bar>kf\<bar> \<le> 2 ^ 1014" unfolding kf_def using kb by (rule round_value_abs_le)
  define n1 where "n1 = round_value (kf - p)"
  define d1 where "d1 = round_value (m - p)"
  have F3: "fsub (Fin kf) (Fin p) = Fin n1"
    unfolding n1_def using kfb p(2) by (rule round_sum_finite)
  have F4: "fsub (Fin m) (Fin p) = Fin d1"
    unfolding d1_def using m(2) p(2) by (rule round_sum_finite)
  have "p < m" using pk km by linarith
  then have dpos: "0 < d1" unfolding d1_def using m(1) p(1)
    by (intro round_value_difference_pos)
  have npos: "0 \<le> n1" unfolding n1_def using pkf by (intro round_value_nonneg) simp
  have nd: "n1 \<le> d1" unfolding n1_def d1_def using kfm by (intro round_value_mono) simp
  have "0 \<le> n1 / d1" using npos dpos by simp
  moreover have "n1 / d1 \<le> 1" using nd dpos by simp
  ultimately have "\<bar>n1 / d1\<bar> \<le> 1" by simp
  also have "(1::rat) \<le> 2 ^ 1023" by simp
  finally have R6: "round_binary64 (n1 / d1) = Fin (round_value (n1 / d1))"
    by (rule round_binary64_in_range)
  have dnz: "d1 \<noteq> 0" using dpos by simp
  have mnz: "mpm \<noteq> 0" using mpm_pos by simp
  show ?thesis
    by (simp add: milepost_at_def mile_distance_def F1 F3 F4 R6 dnz mnz MILES_PER_METER_mpm
          interpolate_time_def timedelta_mul_def)
qed

declare mile_loop.simps [simp del]

lemma mile_loop_finite:
  assumes "binary64 p" "\<bar>p\<bar> \<le> 2 ^ 1014" "binary64 m" "\<bar>m\<bar> \<le> 2 ^ 1014"
    and "p \<le> of_int k" "1 \<le> k"
  shows "\<exists>ys. mile_loop (DateTime t0) (Fin p) (Some q) point (Fin m) k = (ys, Inr (max k \<lceil>m\<rceil>))
              \<and> map (\<lambda>tp. Inr (distance_meters tp)) ys = map mile_distance [k .. \<lceil>m\<rceil> - 1]"
  using assms(5,6)
proof (induction "nat (\<lceil>m\<rceil> - k)" arbitrary: k)
  case 0
  then have "\<lceil>m\<rceil> \<le> k" by simp
  then have "m \<le> of_int k" by (simp add: ceiling_le_iff)
  then have "\<not> fgt_int (Fin m) k" by simp
  then have "mile_loop (DateTime t0) (Fin p) (Some q) point (Fin m) k = ([], Inr k)"
    by (subst mile_loop.simps) simp
  moreover have "max k \<lceil>m\<rceil> = k" using \<open>\<lceil>m\<rceil> \<le> k\<close> by simp
  moreover have "[k .. \<lceil>m\<rceil> - 1] = []" using \<open>\<lceil>m\<rceil> \<le> k\<close> by simp
  ultimately show ?case by simp
next
  case (Suc n)
  then have lt: "k < \<lceil>m\<rceil>" by linarith
  then have km: "of_int k < m" by (simp add: less_ceiling_iff)
  obtain tp where tp: "milepost_at (DateTime t0) (Fin p) (Some q) point (Fin m) k = Inr tp"
    and dist: "Inr (distance_meters tp) = mile_distance k"
    using milepost_at_finite [OF assms(1-4) Suc.prems(1) km Suc.prems(2)] by blast
  have "n = nat (\<lceil>m\<rceil> - (k + 1))" using Suc.hyps(2) by linarith
  moreover have "p \<le> of_int (k + 1)" using Suc.prems(1) by simp
  moreover have "1 \<le> k + 1" using Suc.prems(2) by simp
  ultimately obtain ys where
    ys: "mile_loop (DateTime t0) (Fin p) (Some q) point (Fin m) (k + 1) = (ys, Inr (max (k + 1) \<lceil>m\<rceil>))"
    and ds: "map (\<lambda>tp. Inr (distance_meters tp)) ys = map mile_distance [k + 1 .. \<lceil>m\<rceil> - 1]"
    using Suc.hyps(1) [of "k + 1"] by blast
  have "mile_loop (DateTime t0) (Fin p) (Some q) point (Fin m) k = (tp # ys, Inr (max (k + 1) \<lceil>m\<rceil>))"
    using km by (subst mile_loop.simps) (simp add: tp ys)
  moreover have "max (k + 1) \<lceil>m\<rceil> = max k \<lceil>m\<rceil>" using lt by simp
  moreover have "[k .. \<lceil>m\<rceil> - 1] = k # [k + 1 .. \<lceil>m\<rceil> - 1]"
    using lt by (simp add: upto_rec1)
  ultimately show ?case using dist ds by simp
qed

lemma finite_distance_miles:
  assumes "finite_distance x"
  shows "fmul (distance_meters x) MILES_PER_METER = Fin (miles_value x)"
    and "binary64 (miles_value x)"
    and "\<bar>miles_value x\<bar> \<le> 2 ^ 1014"
    and "miles_value x = round_value (distance_value x * mpm)"
proof -
  obtain d where d: "distance_meters x = Fin d" and b: "binary64 d"
    using assms by (auto simp: finite_distance_def split: pyfloat.splits)
  have "\<bar>d\<bar> \<le> 2 ^ 1024" using b by (simp add: binary64_iff)
  moreover have "\<bar>mpm\<bar> \<le> 1 / 2 ^ 10" using mpm_pos mpm_le by simp
  ultimately have "\<bar>d\<bar> * \<bar>mpm\<bar> \<le> 2 ^ 1024 * (1 / 2 ^ 10)"
    by (intro mult_mono) simp_all
  also have "(2::rat) ^ 1024 * (1 / 2 ^ 10) = 2 ^ 1014" by simp
  finally have bound: "\<bar>d * mpm\<bar> \<le> 2 ^ 1014" by (simp add: abs_mult)
  then have "\<bar>d * mpm\<bar> \<le> 2 ^ 1023" using pow_1014_le_1023 by linarith
  then have r: "round_binary64 (d * mpm) = Fin (round_value (d * mpm))"
    by (rule round_binary64_in_range)
  then have f: "fmul (distance_meters x) MILES_PER_METER = Fin (round_value (d * mpm))"
    by (simp add: d MILES_PER_METER_mpm)
  then have mv: "miles_value x = round_value (d * mpm)" by (simp add: miles_value_def)
  show "fmul (distance_meters x) MILES_PER_METER = Fin (miles_value x)" using f mv by simp
  show "binary64 (miles_value x)" using r mv by (simp add: round_binary64_binary64)
  show "\<bar>miles_value x\<bar> \<le> 2 ^ 1014" unfolding mv using bound by (rule round_value_abs_le)
  show "miles_value x = round_value (distance_value x * mpm)"
    using mv by (simp add: distance_value_def d)
qed

lemma miles_value_mono:
  assumes "finite_distance a" "finite_distance b" "distance_value a < distance_value b"
  shows "miles_value a \<le> miles_value b"
proof -
  have "distance_value a * mpm \<le> distance_value b * mpm"
    using assms(3) mpm_pos by (intro mult_right_mono) simp_all
  then show ?thesis
    unfolding finite_distance_miles(4) [OF assms(1)] finite_distance_miles(4) [OF assms(2)]
    by (rule round_value_mono)
qed

lemma upto_join:
  fixes k j K :: int
  assumes "k \<le> j" "j \<le> K"
  shows "[k .. j - 1] @ [j .. K - 1] = [k .. K - 1]"
proof (cases "j = K")
  case True
  then show ?thesis by simp
next
  case False
  with assms have "j \<le> K - 1" by simp
  with assms(1) show ?thesis using upto_split1 [of k j "K - 1"] by simp
qed

lemma for_points_finite:
  assumes "\<forall>x \<in> set ps. finite_distance x"
    and "sorted_wrt (\<lambda>a b. distance_value a < distance_value b) ps"
    and "binary64 p" "\<bar>p\<bar> \<le> 2 ^ 1014" "p \<le> of_int k" "1 \<le> k"
  shows "\<exists>ys. for_points (DateTime t0) (Fin p) (Some q) k ps = (ys, None)
              \<and> map (\<lambda>tp. Inr (distance_meters tp)) ys =
                  map mile_distance
                    [k .. (if ps = [] then k else max k \<lceil>miles_value (last ps)\<rceil>) - 1]"
  using assms
proof (induction ps arbitrary: t0 p q k)
  case Nil
  show ?case by simp
next
  case (Cons x xs)
  define m where "m = miles_value x"
  have fx: "finite_distance x" using Cons.prems(1) by simp
  have mf: "fmul (distance_meters x) MILES_PER_METER = Fin m"
    and mb: "binary64 m" and mbound: "\<bar>m\<bar> \<le> 2 ^ 1014"
    unfolding m_def using finite_distance_miles [OF fx] by simp_all
  define k1 where "k1 = max k \<lceil>m\<rceil>"
  obtain ys1 where
    l1: "mile_loop (DateTime t0) (Fin p) (Some q) x (Fin m) k = (ys1, Inr k1)"
    and d1: "map (\<lambda>tp. Inr (distance_meters tp)) ys1 = map mile_distance [k .. \<lceil>m\<rceil> - 1]"
    unfolding k1_def
    using mile_loop_finite [OF Cons.prems(3,4) mb mbound Cons.prems(5,6), of t0 q x] by blast
  have "m \<le> of_int \<lceil>m\<rceil>" by simp
  also have "(of_int \<lceil>m\<rceil> :: rat) \<le> of_int k1" unfolding k1_def by simp
  finally have mk1: "m \<le> of_int k1" .
  have k11: "1 \<le> k1" unfolding k1_def using Cons.prems(6) by simp
  have "\<forall>x \<in> set xs. finite_distance x" using Cons.prems(1) by simp
  moreover have "sorted_wrt (\<lambda>a b. distance_value a < distance_value b) xs"
    using Cons.prems(2) by simp
  ultimately obtain ys2 where
    l2: "for_points (DateTime (time x)) (Fin m) (Some x) k1 xs = (ys2, None)"
    and d2: "map (\<lambda>tp. Inr (distance_meters tp)) ys2 =
              map mile_distance
                [k1 .. (if xs = [] then k1 else max k1 \<lceil>miles_value (last xs)\<rceil>) - 1]"
    using Cons.IH [OF _ _ mb mbound mk1 k11, of "time x" x] by blast
  have run: "for_points (DateTime t0) (Fin p) (Some q) k (x # xs) = (ys1 @ ys2, None)"
    by (simp add: mf l1 l2)
  have first: "[k .. \<lceil>m\<rceil> - 1] = [k .. k1 - 1]"
    unfolding k1_def by (cases "k \<le> \<lceil>m\<rceil>") (simp_all add: max_def)
  have lists: "[k .. k1 - 1] @ [k1 .. (if xs = [] then k1 else max k1 \<lceil>miles_value (last xs)\<rceil>) - 1]
      = [k .. max k \<lceil>miles_value (last (x # xs))\<rceil> - 1]"
  proof (cases "xs = []")
    case True
    then show ?thesis by (simp add: k1_def m_def)
  next
    case False
    then have "last xs \<in> set xs" by simp
    then have "miles_value x \<le> miles_value (last xs)"
      using Cons.prems(1,2) by (intro miles_value_mono) auto
    then have "\<lceil>m\<rceil> \<le> \<lceil>miles_value (last xs)\<rceil>" unfolding m_def by (rule ceiling_mono)
    then have eq: "max k1 \<lceil>miles_value (last xs)\<rceil> = max k \<lceil>miles_value (last xs)\<rceil>"
      unfolding k1_def by simp
    have "k \<le> k1" unfolding k1_def by simp
    moreover have "k1 \<le> max k \<lceil>miles_value (last xs)\<rceil>"
      unfolding k1_def using \<open>\<lceil>m\<rceil> \<le> \<lceil>miles_value (last xs)\<rceil>\<close> by simp
    ultimately have "[k .. k1 - 1] @ [k1 .. max k \<lceil>miles_value (last xs)\<rceil> - 1]
        = [k .. max k \<lceil>miles_value (last xs)\<rceil> - 1]"
      by (rule upto_join)
    with False eq show ?thesis by simp
  qed
  have "map (\<lambda>tp. Inr (distance_meters tp)) (ys1 @ ys2) =
      map mile_distance [k .. max k \<lceil>miles_value (last (x # xs))\<rceil> - 1]"
    unfolding map_append d1 d2 first by (simp only: map_append [symmetric] lists)
  with run show ?case by simp
qed

text \<open>
  C1, as amended. A non-empty track whose distances are finite floats and strictly
  increasing, and whose first sample does not lie beyond mile 1: \<open>compute_mileposts\<close>
  ends without an exception and yields one Trackpoint for every integer \<open>k \<ge> 1\<close> that
  is strictly below the last sample's distance in miles, and no other, in order, the
  one for \<open>k\<close> with \<open>distance_meters\<close> the float \<open>k / MILES_PER_METER\<close>. Their number is
  0 when that last distance in miles is below 1; from 1 on it is the floor of the last
  distance in miles, except when this is a whole number: then it is one less.
\<close>

theorem compute_mileposts_count_and_distances:
  assumes "track \<noteq> []"
    and "\<forall>p \<in> set track. finite_distance p"
    and "sorted_wrt (\<lambda>a b. distance_value a < distance_value b) track"
    and "\<not> fgt_int (fmul (distance_meters (hd track)) MILES_PER_METER) 1"
  shows "fmul (distance_meters (last track)) MILES_PER_METER = Fin (miles_value (last track))
     \<and> snd (compute_mileposts track) = None
     \<and> map (\<lambda>tp. Inr (distance_meters tp)) (fst (compute_mileposts track)) =
         map mile_distance [1 .. \<lceil>miles_value (last track)\<rceil> - 1]
     \<and> (\<forall>k \<in> set [1 .. \<lceil>miles_value (last track)\<rceil> - 1]. of_int k < miles_value (last track))
     \<and> set [1 .. \<lceil>miles_value (last track)\<rceil> - 1] =
         {k. 1 \<le> k \<and> of_int k < miles_value (last track)}
     \<and> length (fst (compute_mileposts track)) = nat (\<lceil>miles_value (last track)\<rceil> - 1)
     \<and> int (length (fst (compute_mileposts track))) =
         (if miles_value (last track) < 1 then 0
          else if of_int \<lfloor>miles_value (last track)\<rfloor> = miles_value (last track)
          then \<lfloor>miles_value (last track)\<rfloor> - 1
          else \<lfloor>miles_value (last track)\<rfloor>)"
proof -
  obtain x xs where track: "track = x # xs" using assms(1) by (cases track) auto
  define m1 where "m1 = miles_value x"
  define M where "M = miles_value (last track)"
  have fx: "finite_distance x" using assms(2) track by simp
  have mf: "fmul (distance_meters x) MILES_PER_METER = Fin m1"
    and mb: "binary64 m1" and mbound: "\<bar>m1\<bar> \<le> 2 ^ 1014"
    unfolding m1_def using finite_distance_miles [OF fx] by simp_all
  have le1: "m1 \<le> 1" using assms(4) by (simp add: track mf)
  have first: "mile_loop (IntTime 0) (Fin 0) None x (Fin m1) 1 = ([], Inr 1)"
    using le1 by (subst mile_loop.simps) simp
  have "\<forall>p \<in> set xs. finite_distance p" using assms(2) track by simp
  moreover have "sorted_wrt (\<lambda>a b. distance_value a < distance_value b) xs"
    using assms(3) track by simp
  moreover have "m1 \<le> of_int 1" using le1 by simp
  ultimately obtain ys where
    run: "for_points (DateTime (time x)) (Fin m1) (Some x) 1 xs = (ys, None)"
    and ds: "map (\<lambda>tp. Inr (distance_meters tp)) ys =
              map mile_distance [1 .. (if xs = [] then 1 else max 1 \<lceil>miles_value (last xs)\<rceil>) - 1]"
    using for_points_finite [OF _ _ mb mbound, of xs 1 "time x" x] by auto
  have cm: "compute_mileposts track = (ys, None)"
    by (simp add: compute_mileposts_def track mf first run)
  have range: "[1 .. (if xs = [] then 1 else max 1 \<lceil>miles_value (last xs)\<rceil>) - 1] = [1 .. \<lceil>M\<rceil> - 1]"
  proof (cases "xs = []")
    case True
    then have "M = m1" by (simp add: M_def m1_def track)
    then have "\<lceil>M\<rceil> \<le> 1" using le1 by (simp add: ceiling_le_iff)
    with True show ?thesis by simp
  next
    case False
    then have "M = miles_value (last xs)" by (simp add: M_def track)
    with False show ?thesis by (simp add: max_def)
  qed
  have lf: "finite_distance (last track)" using assms(1,2) by simp
  have c1: "fmul (distance_meters (last track)) MILES_PER_METER = Fin M"
    unfolding M_def using finite_distance_miles(1) [OF lf] .
  have c3: "map (\<lambda>tp. Inr (distance_meters tp)) (fst (compute_mileposts track)) =
         map mile_distance [1 .. \<lceil>M\<rceil> - 1]"
    using ds range by (simp add: cm)
  have c4: "\<forall>k \<in> set [1 .. \<lceil>M\<rceil> - 1]. of_int k < M"
    by (auto simp: less_ceiling_iff)
  have c4': "set [1 .. \<lceil>M\<rceil> - 1] = {k. 1 \<le> k \<and> of_int k < M}"
    by (auto simp: less_ceiling_iff)
  have "length (map (\<lambda>tp. Inr (distance_meters tp) :: error + pyfloat) (fst (compute_mileposts track))) =
      length (map mile_distance [1 .. \<lceil>M\<rceil> - 1])"
    by (simp only: c3)
  then have c5: "length (fst (compute_mileposts track)) = nat (\<lceil>M\<rceil> - 1)" by simp
  have c6: "int (nat (\<lceil>M\<rceil> - 1)) =
      (if M < 1 then 0 else if of_int \<lfloor>M\<rfloor> = M then \<lfloor>M\<rfloor> - 1 else \<lfloor>M\<rfloor>)"
  proof (cases "M < 1")
    case True
    then have "\<lceil>M\<rceil> \<le> 1" by (simp add: ceiling_le_iff)
    with True show ?thesis by simp
  next
    case ge: False
    then have one: "1 \<le> \<lfloor>M\<rfloor>" by (simp add: le_floor_iff)
    show ?thesis
    proof (cases "of_int \<lfloor>M\<rfloor> = M")
      case True
      then have "\<lceil>M\<rceil> = \<lfloor>M\<rfloor>" by (metis ceiling_of_int)
      with True ge one show ?thesis by simp
    next
      case False
      then have "\<lceil>M\<rceil> = \<lfloor>M\<rfloor> + 1" by (simp add: ceiling_altdef)
      with False ge one show ?thesis by simp
    qed
  qed
  show ?thesis
    unfolding M_def [symmetric] using c1 cm c3 c4 c4' c5 c6 by simp
qed

lemma ceiling_rat_numeral_divide [simp]:
  "\<lceil>numeral a / numeral b :: rat\<rceil> = - (- numeral a div numeral b)"
  by (simp add: ceiling_def)

lemma binary64_of_int: "\<bar>k\<bar> \<le> 2 ^ 53 \<Longrightarrow> binary64 (of_int k)"
  by (simp add: binary64_def round_binary64_of_int)

lemma finite_distance_sample [simp]: "finite_distance (sample_at t d) = binary64 d"
  by (simp add: finite_distance_def sample_at_def)

lemma distance_value_sample [simp]: "distance_value (sample_at t d) = d"
  by (simp add: distance_value_def sample_at_def)

lemma distance_meters_sample [simp]: "distance_meters (sample_at t d) = Fin d"
  by (simp add: sample_at_def)

lemma zero_miles [simp]: "fmul (Fin 0) MILES_PER_METER = Fin 0"
  by (simp add: MILES_PER_METER_mpm)

lemma mile_distance_1: "mile_distance 1 = Inr (Fin mile_in_meters)"
  unfolding mile_distance_def MILES_PER_METER_value mile_in_meters_def
  using round_binary64_normal [of 10 "1 / (5731135905912489 / 2 ^ 63)"]
  by (simp add: round_eval)

lemma binary64_mile_in_meters: "binary64 mile_in_meters"
  unfolding binary64_def mile_in_meters_def
  using round_binary64_normal [of 10 "7077971954120807 / 2 ^ 42"]
  by (simp add: round_eval)

theorem compute_mileposts_count_and_distances_witness:
  "sample_track \<noteq> []
   \<and> list_all finite_distance sample_track
   \<and> sorted_wrt (\<lambda>a b. distance_value a < distance_value b) sample_track
   \<and> \<not> fgt_int (fmul (distance_meters (hd sample_track)) MILES_PER_METER) 1
   \<and> miles_value (last sample_track) = 1119362481623533 / 2 ^ 49
   \<and> snd (compute_mileposts sample_track) = None
   \<and> map distance_meters (fst (compute_mileposts sample_track)) = [Fin mile_in_meters]
   \<and> length (fst (compute_mileposts sample_track)) = 1
   \<and> list_all finite_distance [sample_at 0 0]
   \<and> miles_value (last [sample_at 0 0]) = 0
   \<and> compute_mileposts [sample_at 0 0] = ([], None)"
proof -
  have b: "binary64 0" "binary64 2000" "binary64 3200"
    using binary64_of_int [of 0] binary64_of_int [of 2000] binary64_of_int [of 3200] by simp_all
  have h1: "sample_track \<noteq> []" by (simp add: sample_track_def)
  have h2: "\<forall>p \<in> set sample_track. finite_distance p" by (simp add: sample_track_def b)
  have h3: "sorted_wrt (\<lambda>a b. distance_value a < distance_value b) sample_track"
    by (simp add: sample_track_def)
  have h4: "\<not> fgt_int (fmul (distance_meters (hd sample_track)) MILES_PER_METER) 1"
    by (simp add: sample_track_def)
  have mv: "miles_value (last sample_track) = 1119362481623533 / 2 ^ 49"
    by (simp add: sample_track_def miles_value_def miles_3200)
  have "\<lceil>miles_value (last sample_track)\<rceil> = 2" unfolding mv by simp
  then have r: "[1 .. \<lceil>miles_value (last sample_track)\<rceil> - 1] = [1]" by (simp add: upto_rec1)
  from compute_mileposts_count_and_distances [OF h1 h2 h3 h4]
  have n: "snd (compute_mileposts sample_track) = None"
    and d: "map (\<lambda>tp. Inr (distance_meters tp)) (fst (compute_mileposts sample_track)) =
         map mile_distance [1 .. \<lceil>miles_value (last sample_track)\<rceil> - 1]"
    by blast+
  from d have "map (\<lambda>tp. Inr (distance_meters tp) :: error + pyfloat) (fst (compute_mileposts sample_track)) =
      [Inr (Fin mile_in_meters)]"
    by (simp only: r list.map mile_distance_1)
  then have ds: "map distance_meters (fst (compute_mileposts sample_track)) = [Fin mile_in_meters]"
    by (cases "fst (compute_mileposts sample_track)") auto
  have "length (map distance_meters (fst (compute_mileposts sample_track))) = 1"
    by (simp only: ds) simp
  then have len: "length (fst (compute_mileposts sample_track)) = 1" by simp
  have g1: "[sample_at 0 0] \<noteq> []" by simp
  have g2: "\<forall>p \<in> set [sample_at 0 0]. finite_distance p" by (simp add: b)
  have g3: "sorted_wrt (\<lambda>a b. distance_value a < distance_value b) [sample_at 0 0]" by simp
  have g4: "\<not> fgt_int (fmul (distance_meters (hd [sample_at 0 0])) MILES_PER_METER) 1" by simp
  have mv0: "miles_value (last [sample_at 0 0]) = 0" by (simp add: miles_value_def)
  from compute_mileposts_count_and_distances [OF g1 g2 g3 g4]
  have "snd (compute_mileposts [sample_at 0 0]) = None"
    and "int (length (fst (compute_mileposts [sample_at 0 0]))) = 0"
    unfolding mv0 by simp_all
  then have single: "compute_mileposts [sample_at 0 0] = ([], None)"
    by (cases "compute_mileposts [sample_at 0 0]") simp
  from h1 h2 h3 h4 mv n ds len g2 mv0 single show ?thesis by (simp add: list_all_iff)
qed

text \<open>
  C1 as stated fails: a track that ends at \<open>1609.3444978925634\<close> m has a last distance
  of exactly \<open>1.0\<close> miles, whose floor is 1, and no milepost is yielded, since the loop
  tests \<open>miles > next_mile\<close>.
\<close>

theorem compute_mileposts_whole_mile_counterexample:
  "list_all finite_distance whole_mile_track
   \<and> sorted_wrt (\<lambda>a b. distance_value a < distance_value b) whole_mile_track
   \<and> fmul (distance_meters (last whole_mile_track)) MILES_PER_METER = Fin 1
   \<and> compute_mileposts whole_mile_track = ([], None)
   \<and> length (fst (compute_mileposts whole_mile_track)) \<noteq> nat \<lfloor>1 :: rat\<rfloor>"
proof -
  have "compute_mileposts whole_mile_track = ([], None)"
    by (simp add: compute_mileposts_def whole_mile_track_def mile_in_miles mile_loop.simps)
  moreover have "0 < mile_in_meters" by (simp add: mile_in_meters_def)
  ultimately show ?thesis
    using binary64_mile_in_meters by (simp add: whole_mile_track_def mile_in_miles)
qed

section \<open>Properties of the splits\<close>














lemma distance_below_sample [simp]: "distance_below B (sample_at t d) = (\<bar>d\<bar> \<le> B)"
  by (simp add: distance_below_def sample_at_def)

lemma time_sample [simp]: "time (sample_at t d) = t"
  by (simp add: sample_at_def)


section \<open>Further properties\<close>

lemma fadd_NaN_right [simp]: "fadd a NaN = NaN"
  by (cases a) simp_all

lemma fsub_NaN_right [simp]: "fsub a NaN = NaN"
  by (simp add: fsub_def)

text \<open>
  After a sample whose distance is not-a-number, \<open>previous_miles\<close> is not-a-number:
  when the next sample lies beyond the next mile, the fraction of line 250 is
  not-a-number and the product \<open>delta * fraction\<close> of line 253 raises \<open>ValueError\<close>.
\<close>

theorem milepost_after_missing_distance_raises:
  assumes "distance_meters p = NaN"
    and "fgt_int (fmul (distance_meters q) MILES_PER_METER) 1"
  shows "compute_mileposts (p # q # rest) = ([], Some ValueError)"
proof -
  have first: "mile_loop (IntTime 0) (Fin 0) None p NaN 1 = ([], Inr 1)"
    by (subst mile_loop.simps) simp
  have "milepost_at (DateTime (time p)) NaN (Some p) q (fmul (distance_meters q) MILES_PER_METER) 1
      = Inl ValueError"
    by (simp add: milepost_at_def interpolate_time_def timedelta_mul_def)
  then have "mile_loop (DateTime (time p)) NaN (Some p) q (fmul (distance_meters q) MILES_PER_METER) 1
      = ([], Inl ValueError)"
    using assms(2) by (subst mile_loop.simps) simp
  then show ?thesis
    using assms(1) first by (simp add: compute_mileposts_def)
qed

theorem milepost_after_missing_distance_raises_witness:
  "distance_meters (sample_at 0 0\<lparr>distance_meters := NaN\<rparr>) = NaN
   \<and> fgt_int (fmul (distance_meters (sample_at 600000000 2000)) MILES_PER_METER) 1
   \<and> compute_mileposts [sample_at 0 0\<lparr>distance_meters := NaN\<rparr>, sample_at 600000000 2000] =
       ([], Some ValueError)"
proof -
  have a: "distance_meters (sample_at 0 0\<lparr>distance_meters := NaN\<rparr>) = NaN" by simp
  have b: "fgt_int (fmul (distance_meters (sample_at 600000000 2000)) MILES_PER_METER) 1"
    by (simp add: two_km_in_miles)
  from milepost_after_missing_distance_raises [OF a b, of "[]"] a b show ?thesis by simp
qed

text \<open>\<open>mph\<close> returns a float for every float \<open>meters\<close>: the only exception its
  expression can raise then is the \<open>ZeroDivisionError\<close> it catches.\<close>

theorem mph_never_raises: "\<exists>v. mph (PyFloat meters) duration = Inr v"
  by (rule mph_returns)

end
